theory Spec2Isabelle
  imports Main
begin

section \<open>The virtual terminal of src/virtual-terminal.js\<close>

text \<open>
  A shallow embedding of the class \<open>VirtualTerminal\<close>. The object is a record, every
  method is a function that takes the object and returns the updated one, and a method
  that can raise returns a sum whose left side is the exception.

  A character is its UTF-16 code unit (\<open>charCodeAt(0)\<close>), a natural number; a string is
  the list of its units. Numeric parameters of control sequences are naturals below
  \<open>2^53\<close>, where the source's doubles are exact; at a larger one the model stops (see
  \<open>Inexact\<close> below). The dimensions are naturals, taken to be array lengths (below
  \<open>2^32\<close>): \<open>Array(n)\<close> raises a RangeError for any other number. Cursor coordinates and the
  bounds of the scroll region are integers, since the source's arithmetic can take them
  below 0 or beyond the grid.

  The fields \<open>debug\<close>, \<open>verbose\<close> and \<open>lastScreenHash\<close>, the console output they guard
  and the methods \<open>hasChangedSinceLastRead\<close>, \<open>markAsRead\<close> and \<open>getScreenHash\<close> are
  left out: no function below reads or calls them. The \<open>timestamp\<close> of a change event is
  left out as well.
\<close>

subsection \<open>Data\<close>

datatype color = Black | Red | Green | Yellow | Blue | Magenta | Cyan | White

record attr =
  fg :: color
  bg :: color
  bold :: bool
  underline :: bool
  reverse :: bool

text \<open>
  A cell is \<open>{char, attr}\<close>. The attribute is optional because the constructor fills
  the first buffer before \<open>currentAttr\<close> is assigned: spreading \<open>undefined\<close> gives the
  empty object, here \<open>None\<close>.
\<close>

datatype cell = Cell (char: nat) (attr: "attr option")

type_synonym row = "cell list"
type_synonym buffer = "row list"

datatype pos = Pos (posx: int) (posy: int)

record region =
  topRow :: int
  bottomRow :: int

datatype pstate = Normal | Escape | CSI | OSC

record parse_state =
  state :: pstate
  params :: "nat list"
  current :: "nat list"
  intermediate :: "nat list"

record snapshot =
  savedBuffer :: buffer
  savedPos :: pos

record changeData =
  frameNumber :: nat
  screenBefore :: "nat list"
  screenAfter :: "nat list"
  cursorPosition :: pos
  inputData :: "nat list"

text \<open>
  A listener is a callback with an identity (the \<open>Set\<close> compares by identity). Of its
  body only one thing matters to the terminal: whether the call raises. Listeners are
  taken not to call back into the terminal.
\<close>

datatype listener = Listener (ident: nat) (raises: "changeData \<Rightarrow> bool")

record terminal =
  cols :: nat
  rows :: nat
  buffer :: buffer
  cursor :: pos
  savedCursor :: pos
  cursorVisible :: bool
  scrollRegion :: region
  altScreenBuffer :: "snapshot option"
  isAltScreen :: bool
  currentAttr :: attr
  parseState :: parse_state
  frameCounter :: nat
  changeListeners :: "listener list"
  hasChangedSinceLastCheck :: bool

text \<open>
  What a call can end with instead of a result. \<open>TypeError\<close> is the exception of
  reading a property of \<open>undefined\<close> (a row that does not exist). \<open>SparseArray\<close> is not
  an exception: it marks the places where the source goes on with an array that has a
  hole, a property at a negative index or a cell without \<open>char\<close>; the model covers dense
  arrays only and stops there. \<open>Inexact\<close> is not an exception either: it marks a
  numeric parameter of \<open>2^53\<close> or more, which \<open>parseInt\<close> rounds to a double (or to
  \<open>Infinity\<close>) and with which the source goes on: its arithmetic rounds again, and a loop
  \<open>for (let i = 0; i < count; i++)\<close> with a count above \<open>2^53\<close> does not end. The model
  covers exact numbers only and stops there. \<open>ListenerError\<close> is an exception raised by
  a listener.
\<close>

datatype error = TypeError | SparseArray | Inexact | ListenerError nat

definition thenE :: "error + 'a \<Rightarrow> ('a \<Rightarrow> error + 'b) \<Rightarrow> error + 'b" where
  "thenE m f = (case m of Inl e \<Rightarrow> Inl e | Inr a \<Rightarrow> f a)"

text \<open>A \<open>for\<close> loop over the listed indices, stopped by the first exception.\<close>

fun foldE :: "('i \<Rightarrow> 's \<Rightarrow> error + 's) \<Rightarrow> 'i list \<Rightarrow> 's \<Rightarrow> error + 's" where
  "foldE f [] s = Inr s"
| "foldE f (i # is) s = thenE (f i s) (foldE f is)"

text \<open>\<open>for (let i = 0; i < count; i++)\<close> with a body that does not read \<open>i\<close>.\<close>

fun repeatE :: "nat \<Rightarrow> ('s \<Rightarrow> error + 's) \<Rightarrow> 's \<Rightarrow> error + 's" where
  "repeatE 0 f s = Inr s"
| "repeatE (Suc n) f s = thenE (f s) (repeatE n f)"

subsection \<open>Arrays\<close>

text \<open>\<open>a[i]\<close> read in order to use it as an object: \<open>undefined\<close> raises.\<close>

definition getRow :: "'a list \<Rightarrow> int \<Rightarrow> error + 'a" where
  "getRow a i = (if 0 \<le> i \<and> i < int (length a) then Inr (a ! nat i) else Inl TypeError)"

text \<open>\<open>a[i] = v\<close>: inside the array it replaces, at the end it extends the array by one.\<close>

definition setAt :: "'a list \<Rightarrow> int \<Rightarrow> 'a \<Rightarrow> error + 'a list" where
  "setAt a i v =
     (if 0 \<le> i \<and> i < int (length a) then Inr (a[nat i := v])
      else if i = int (length a) then Inr (a @ [v])
      else Inl SparseArray)"

text \<open>\<open>{ ...a[i] }\<close>: a copy of the cell at \<open>i\<close>.\<close>

definition getCell :: "row \<Rightarrow> int \<Rightarrow> error + cell" where
  "getCell r i = (if 0 \<le> i \<and> i < int (length r) then Inr (r ! nat i) else Inl SparseArray)"

text \<open>\<open>this.buffer[y][x] = c\<close>\<close>

definition putCell :: "int \<Rightarrow> int \<Rightarrow> cell \<Rightarrow> buffer \<Rightarrow> error + buffer" where
  "putCell y x c b =
     thenE (getRow b y) (\<lambda>r. thenE (setAt r x c) (\<lambda>r'. Inr (b[nat y := r'])))"

definition blank :: "attr \<Rightarrow> cell" where
  "blank a = Cell 32 (Some a)"

definition onBuffer :: "(buffer \<Rightarrow> error + buffer) \<Rightarrow> terminal \<Rightarrow> error + terminal" where
  "onBuffer f t = thenE (f (buffer t)) (\<lambda>b. Inr (t\<lparr>buffer := b\<rparr>))"

subsection \<open>Construction\<close>

definition defaultAttr :: attr where
  "defaultAttr = \<lparr>fg = White, bg = Black, bold = False, underline = False, reverse = False\<rparr>"

definition emptyBuffer :: "nat \<Rightarrow> nat \<Rightarrow> attr option \<Rightarrow> buffer" where
  "emptyBuffer r c a = replicate r (replicate c (Cell 32 a))"

definition createEmptyBuffer :: "terminal \<Rightarrow> buffer" where
  "createEmptyBuffer t = emptyBuffer (rows t) (cols t) (Some (currentAttr t))"

text \<open>
  The constructor. Its call of \<open>createEmptyBuffer\<close> comes before the assignment of
  \<open>currentAttr\<close>, so the cells get the empty attribute object.
\<close>

definition new :: "nat \<Rightarrow> nat \<Rightarrow> terminal" where
  "new c r =
     \<lparr>cols = c, rows = r,
      buffer = emptyBuffer r c None,
      cursor = Pos 0 0, savedCursor = Pos 0 0, cursorVisible = True,
      scrollRegion = \<lparr>topRow = 0, bottomRow = int r - 1\<rparr>,
      altScreenBuffer = None, isAltScreen = False,
      currentAttr = defaultAttr,
      parseState = \<lparr>state = Normal, params = [], current = [], intermediate = []\<rparr>,
      frameCounter = 0, changeListeners = [], hasChangedSinceLastCheck = False\<rparr>"

subsection \<open>Output\<close>

fun joinLines :: "nat list list \<Rightarrow> nat list" where
  "joinLines [] = []"
| "joinLines [l] = l"
| "joinLines (l # ls) = l @ 10 # joinLines ls"

definition toString :: "terminal \<Rightarrow> nat list" where
  "toString t = joinLines (map (map char) (buffer t))"

definition getScreenText :: "terminal \<Rightarrow> nat list" where
  "getScreenText t = toString t"

definition getCursorPosition :: "terminal \<Rightarrow> pos" where
  "getCursorPosition t = cursor t"

subsection \<open>Cursor movement\<close>

definition moveCursorUp :: "nat \<Rightarrow> terminal \<Rightarrow> terminal" where
  "moveCursorUp count t =
     t\<lparr>cursor := Pos (posx (cursor t)) (max 0 (posy (cursor t) - int count))\<rparr>"

definition moveCursorDown :: "nat \<Rightarrow> terminal \<Rightarrow> terminal" where
  "moveCursorDown count t =
     t\<lparr>cursor := Pos (posx (cursor t)) (min (int (rows t) - 1) (posy (cursor t) + int count))\<rparr>"

definition moveCursorRight :: "nat \<Rightarrow> terminal \<Rightarrow> terminal" where
  "moveCursorRight count t =
     t\<lparr>cursor := Pos (min (int (cols t) - 1) (posx (cursor t) + int count)) (posy (cursor t))\<rparr>"

definition moveCursorLeft :: "nat \<Rightarrow> terminal \<Rightarrow> terminal" where
  "moveCursorLeft count t =
     t\<lparr>cursor := Pos (max 0 (posx (cursor t) - int count)) (posy (cursor t))\<rparr>"

definition setCursorPosition :: "int \<Rightarrow> int \<Rightarrow> terminal \<Rightarrow> terminal" where
  "setCursorPosition col row t =
     t\<lparr>cursor := Pos (max 0 (min (int (cols t) - 1) (col - 1)))
                     (max 0 (min (int (rows t) - 1) (row - 1)))\<rparr>"

definition saveCursor :: "terminal \<Rightarrow> terminal" where
  "saveCursor t = t\<lparr>savedCursor := cursor t\<rparr>"

definition restoreCursor :: "terminal \<Rightarrow> terminal" where
  "restoreCursor t = t\<lparr>cursor := savedCursor t\<rparr>"

definition carriageReturn :: "terminal \<Rightarrow> terminal" where
  "carriageReturn t = t\<lparr>cursor := Pos 0 (posy (cursor t))\<rparr>"

definition tab :: "terminal \<Rightarrow> terminal" where
  "tab t =
     (let nextTab = (posx (cursor t) div 8) * 8 + 8
      in t\<lparr>cursor := Pos (min nextTab (int (cols t) - 1)) (posy (cursor t))\<rparr>)"

subsection \<open>Lines of the buffer\<close>

text \<open>
  The loops below change the buffer only; they read \<open>cols\<close>, \<open>currentAttr\<close>, the cursor
  and the scroll region, which stay fixed while they run. Each is therefore a function on
  the buffer, applied to the terminal by \<open>onBuffer\<close>.
\<close>

definition clearLineB :: "nat \<Rightarrow> attr \<Rightarrow> int \<Rightarrow> buffer \<Rightarrow> error + buffer" where
  "clearLineB n a y b = foldE (\<lambda>x. putCell y x (blank a)) [0..int n - 1] b"

definition clearLine :: "int \<Rightarrow> terminal \<Rightarrow> error + terminal" where
  "clearLine y t = onBuffer (clearLineB (cols t) (currentAttr t) y) t"

definition clearScreen :: "terminal \<Rightarrow> terminal" where
  "clearScreen t = t\<lparr>buffer := createEmptyBuffer t, cursor := Pos 0 0\<rparr>"

text \<open>\<open>this.buffer[y] = copy of this.buffer[y + 1]\<close> and \<open>... of this.buffer[y - 1]\<close>\<close>

definition rowFromBelow :: "int \<Rightarrow> buffer \<Rightarrow> error + buffer" where
  "rowFromBelow y b = thenE (getRow b (y + 1)) (\<lambda>r. setAt b y r)"

definition rowFromAbove :: "int \<Rightarrow> buffer \<Rightarrow> error + buffer" where
  "rowFromAbove y b = thenE (getRow b (y - 1)) (\<lambda>r. setAt b y r)"

definition scrollUpStep :: "int \<Rightarrow> int \<Rightarrow> nat \<Rightarrow> attr \<Rightarrow> buffer \<Rightarrow> error + buffer" where
  "scrollUpStep tp bt n a b =
     thenE (foldE rowFromBelow [tp..bt - 1] b) (clearLineB n a bt)"

definition scrollUp :: "nat \<Rightarrow> terminal \<Rightarrow> error + terminal" where
  "scrollUp count t =
     onBuffer (repeatE count (scrollUpStep (topRow (scrollRegion t)) (bottomRow (scrollRegion t))
                                (cols t) (currentAttr t))) t"

definition scrollDownStep :: "int \<Rightarrow> int \<Rightarrow> nat \<Rightarrow> attr \<Rightarrow> buffer \<Rightarrow> error + buffer" where
  "scrollDownStep tp bt n a b =
     thenE (foldE rowFromAbove (rev [tp + 1..bt]) b) (clearLineB n a tp)"

definition scrollDown :: "nat \<Rightarrow> terminal \<Rightarrow> error + terminal" where
  "scrollDown count t =
     onBuffer (repeatE count (scrollDownStep (topRow (scrollRegion t)) (bottomRow (scrollRegion t))
                                (cols t) (currentAttr t))) t"

definition insertLines :: "nat \<Rightarrow> terminal \<Rightarrow> error + terminal" where
  "insertLines count t =
     onBuffer (repeatE count (\<lambda>b.
       thenE (foldE rowFromAbove (rev [posy (cursor t) + 1..bottomRow (scrollRegion t)]) b)
             (clearLineB (cols t) (currentAttr t) (posy (cursor t))))) t"

definition deleteLines :: "nat \<Rightarrow> terminal \<Rightarrow> error + terminal" where
  "deleteLines count t =
     onBuffer (repeatE count (\<lambda>b.
       thenE (foldE rowFromBelow [posy (cursor t)..bottomRow (scrollRegion t) - 1] b)
             (clearLineB (cols t) (currentAttr t) (bottomRow (scrollRegion t))))) t"

text \<open>\<open>this.buffer[y][x] = { ...this.buffer[y][x + 1] }\<close>\<close>

definition cellFromRight :: "int \<Rightarrow> int \<Rightarrow> buffer \<Rightarrow> error + buffer" where
  "cellFromRight y x b =
     thenE (getRow b y) (\<lambda>r. thenE (getCell r (x + 1)) (\<lambda>c. putCell y x c b))"

definition deleteCharacters :: "nat \<Rightarrow> terminal \<Rightarrow> error + terminal" where
  "deleteCharacters count t =
     (let y = posy (cursor t)
      in onBuffer (repeatE count (\<lambda>b.
           thenE (foldE (cellFromRight y) [posx (cursor t)..int (cols t) - 2] b)
                 (putCell y (int (cols t) - 1) (blank (currentAttr t))))) t)"

definition eraseInLine :: "nat \<Rightarrow> terminal \<Rightarrow> error + terminal" where
  "eraseInLine mode t =
     (let y = posy (cursor t)
      in if mode = 0 then
           onBuffer (foldE (\<lambda>x. putCell y x (blank (currentAttr t)))
                       [posx (cursor t)..int (cols t) - 1]) t
         else if mode = 1 then
           onBuffer (foldE (\<lambda>x. putCell y x (blank (currentAttr t))) [0..posx (cursor t)]) t
         else if mode = 2 then clearLine y t
         else Inr t)"

definition eraseInDisplay :: "nat \<Rightarrow> terminal \<Rightarrow> error + terminal" where
  "eraseInDisplay mode t =
     (if mode = 0 then
        thenE (eraseInLine 0 t) (foldE clearLine [posy (cursor t) + 1..int (rows t) - 1])
      else if mode = 1 then
        thenE (foldE clearLine [0..posy (cursor t) - 1] t) (eraseInLine 1)
      else if mode = 2 then Inr (clearScreen t)
      else Inr t)"

subsection \<open>Printing and line operations\<close>

definition lineFeed :: "terminal \<Rightarrow> error + terminal" where
  "lineFeed t =
     (let t1 = t\<lparr>cursor := Pos 0 (posy (cursor t))\<rparr>
      in if posy (cursor t1) \<ge> int (rows t1) - 1 then scrollUp 1 t1
         else Inr (t1\<lparr>cursor := Pos (posx (cursor t1)) (posy (cursor t1) + 1)\<rparr>))"

definition printChar :: "nat \<Rightarrow> terminal \<Rightarrow> error + terminal" where
  "printChar c t =
     thenE (if posx (cursor t) \<ge> int (cols t)
            then lineFeed (t\<lparr>cursor := Pos 0 (posy (cursor t))\<rparr>) else Inr t)
       (\<lambda>t1. thenE (onBuffer (putCell (posy (cursor t1)) (posx (cursor t1))
                                (Cell c (Some (currentAttr t1)))) t1)
         (\<lambda>t2. Inr (t2\<lparr>cursor := Pos (posx (cursor t2) + 1) (posy (cursor t2))\<rparr>)))"

definition nextLine :: "terminal \<Rightarrow> error + terminal" where
  "nextLine t = lineFeed (carriageReturn t)"

definition index :: "terminal \<Rightarrow> error + terminal" where
  "index t = lineFeed t"

definition reverseIndex :: "terminal \<Rightarrow> error + terminal" where
  "reverseIndex t =
     (if posy (cursor t) \<le> topRow (scrollRegion t) then scrollDown 1 t
      else Inr (t\<lparr>cursor := Pos (posx (cursor t)) (posy (cursor t) - 1)\<rparr>))"

subsection \<open>Modes and settings\<close>

definition setScrollRegion :: "int \<Rightarrow> int \<Rightarrow> terminal \<Rightarrow> terminal" where
  "setScrollRegion tp bt t =
     (let tp' = max 0 (tp - 1); bt' = min (int (rows t) - 1) (bt - 1)
      in t\<lparr>scrollRegion := \<lparr>topRow = tp', bottomRow = bt'\<rparr>, cursor := Pos 0 tp'\<rparr>)"

definition applySGR :: "nat \<Rightarrow> attr \<Rightarrow> attr" where
  "applySGR p a =
     (if p = 0 then defaultAttr
      else if p = 1 then a\<lparr>bold := True\<rparr>
      else if p = 4 then a\<lparr>underline := True\<rparr>
      else if p = 7 then a\<lparr>reverse := True\<rparr>
      else if p = 22 then a\<lparr>bold := False\<rparr>
      else if p = 24 then a\<lparr>underline := False\<rparr>
      else if p = 27 then a\<lparr>reverse := False\<rparr>
      else if p = 30 then a\<lparr>fg := Black\<rparr>
      else if p = 31 then a\<lparr>fg := Red\<rparr>
      else if p = 32 then a\<lparr>fg := Green\<rparr>
      else if p = 33 then a\<lparr>fg := Yellow\<rparr>
      else if p = 34 then a\<lparr>fg := Blue\<rparr>
      else if p = 35 then a\<lparr>fg := Magenta\<rparr>
      else if p = 36 then a\<lparr>fg := Cyan\<rparr>
      else if p = 37 then a\<lparr>fg := White\<rparr>
      else if p = 40 then a\<lparr>bg := Black\<rparr>
      else if p = 41 then a\<lparr>bg := Red\<rparr>
      else if p = 42 then a\<lparr>bg := Green\<rparr>
      else if p = 43 then a\<lparr>bg := Yellow\<rparr>
      else if p = 44 then a\<lparr>bg := Blue\<rparr>
      else if p = 45 then a\<lparr>bg := Magenta\<rparr>
      else if p = 46 then a\<lparr>bg := Cyan\<rparr>
      else if p = 47 then a\<lparr>bg := White\<rparr>
      else a)"

definition setGraphicRendition :: "nat list \<Rightarrow> terminal \<Rightarrow> terminal" where
  "setGraphicRendition ps t =
     (let ps' = (if length ps = 0 then [0] else ps)
      in t\<lparr>currentAttr := foldl (\<lambda>a p. applySGR p a) (currentAttr t) ps'\<rparr>)"

definition enableAltScreen :: "terminal \<Rightarrow> terminal" where
  "enableAltScreen t =
     (if \<not> isAltScreen t then
        clearScreen (t\<lparr>altScreenBuffer := Some \<lparr>savedBuffer = buffer t, savedPos = cursor t\<rparr>,
                       isAltScreen := True\<rparr>)
      else t)"

definition disableAltScreen :: "terminal \<Rightarrow> terminal" where
  "disableAltScreen t =
     (case altScreenBuffer t of
        Some s \<Rightarrow>
          if isAltScreen t then
            t\<lparr>buffer := savedBuffer s, cursor := savedPos s,
              altScreenBuffer := None, isAltScreen := False\<rparr>
          else t
      | None \<Rightarrow> t)"

text \<open>The intermediate string is compared with \<open>'?'\<close>, code 63.\<close>

fun setMode :: "nat list \<Rightarrow> nat list \<Rightarrow> terminal \<Rightarrow> terminal" where
  "setMode [] im t = t"
| "setMode (p # ps) im t =
     setMode ps im
       (if im = [63] then
          (if p = 25 then t\<lparr>cursorVisible := True\<rparr>
           else if p = 1049 then enableAltScreen t
           else t)
        else t)"

fun resetMode :: "nat list \<Rightarrow> nat list \<Rightarrow> terminal \<Rightarrow> terminal" where
  "resetMode [] im t = t"
| "resetMode (p # ps) im t =
     resetMode ps im
       (if im = [63] then
          (if p = 25 then t\<lparr>cursorVisible := False\<rparr>
           else if p = 1049 then disableAltScreen t
           else t)
        else t)"

definition reset :: "terminal \<Rightarrow> terminal" where
  "reset t =
     t\<lparr>buffer := createEmptyBuffer t,
       cursor := Pos 0 0,
       savedCursor := Pos 0 0,
       scrollRegion := \<lparr>topRow = 0, bottomRow = int (rows t) - 1\<rparr>,
       currentAttr := defaultAttr,
       cursorVisible := True,
       isAltScreen := False,
       altScreenBuffer := None\<rparr>"

subsection \<open>The escape sequence parser\<close>

definition ord :: "char \<Rightarrow> nat" where
  "ord c = of_char c"

definition str :: "string \<Rightarrow> nat list" where
  "str s = map ord s"

text \<open>
  \<open>parseInt(current) || 0\<close>. The parser appends only the digits 0 to 9 to \<open>current\<close>; on
  such a string \<open>parseInt\<close> is the decimal value as long as that is below \<open>2^53\<close>, and
  \<open>NaN\<close> (here 0) on the empty one. From \<open>2^53\<close> on the value is a rounded one, which the
  model does not follow.
\<close>

definition decimal :: "nat list \<Rightarrow> int" where
  "decimal cs =
     foldl (\<lambda>n d. 10 * n + int (d - 48)) 0 (takeWhile (\<lambda>d. 48 \<le> d \<and> d \<le> 57) cs)"

definition parseIntOr0 :: "nat list \<Rightarrow> error + nat" where
  "parseIntOr0 cs =
     (if decimal cs < 9007199254740992 then Inr (nat (decimal cs)) else Inl Inexact)"

text \<open>\<open>params[i] || d\<close>\<close>

definition paramOr :: "nat list \<Rightarrow> nat \<Rightarrow> nat \<Rightarrow> nat" where
  "paramOr ps i d = (if i < length ps \<and> ps ! i \<noteq> 0 then ps ! i else d)"

definition handleCSISequence :: "nat \<Rightarrow> nat list \<Rightarrow> nat list \<Rightarrow> terminal \<Rightarrow> error + terminal" where
  "handleCSISequence finalChar ps im t =
     (if finalChar = ord CHR ''A'' then Inr (moveCursorUp (paramOr ps 0 1) t)
      else if finalChar = ord CHR ''B'' then Inr (moveCursorDown (paramOr ps 0 1) t)
      else if finalChar = ord CHR ''C'' then Inr (moveCursorRight (paramOr ps 0 1) t)
      else if finalChar = ord CHR ''D'' then Inr (moveCursorLeft (paramOr ps 0 1) t)
      else if finalChar = ord CHR ''H'' \<or> finalChar = ord CHR ''f'' then
        Inr (setCursorPosition (int (paramOr ps 1 1)) (int (paramOr ps 0 1)) t)
      else if finalChar = ord CHR ''J'' then eraseInDisplay (paramOr ps 0 0) t
      else if finalChar = ord CHR ''K'' then eraseInLine (paramOr ps 0 0) t
      else if finalChar = ord CHR ''L'' then insertLines (paramOr ps 0 1) t
      else if finalChar = ord CHR ''M'' then deleteLines (paramOr ps 0 1) t
      else if finalChar = ord CHR ''P'' then deleteCharacters (paramOr ps 0 1) t
      else if finalChar = ord CHR ''S'' then scrollUp (paramOr ps 0 1) t
      else if finalChar = ord CHR ''T'' then scrollDown (paramOr ps 0 1) t
      else if finalChar = ord CHR ''d'' then
        Inr (setCursorPosition (posx (cursor t) + 1) (int (paramOr ps 0 1)) t)
      else if finalChar = ord CHR ''G'' then
        Inr (setCursorPosition (int (paramOr ps 0 1)) (posy (cursor t) + 1) t)
      else if finalChar = ord CHR ''r'' then
        Inr (setScrollRegion (int (paramOr ps 0 1)) (int (paramOr ps 1 (rows t))) t)
      else if finalChar = ord CHR ''m'' then Inr (setGraphicRendition ps t)
      else if finalChar = ord CHR ''h'' then Inr (setMode ps im t)
      else if finalChar = ord CHR ''l'' then Inr (resetMode ps im t)
      else if finalChar = ord CHR ''s'' then Inr (saveCursor t)
      else if finalChar = ord CHR ''u'' then Inr (restoreCursor t)
      else Inr t)"

definition setState :: "pstate \<Rightarrow> terminal \<Rightarrow> terminal" where
  "setState s t = t\<lparr>parseState := (parseState t)\<lparr>state := s\<rparr>\<rparr>"

definition handleNormalChar :: "nat \<Rightarrow> terminal \<Rightarrow> error + terminal" where
  "handleNormalChar code t =
     (if code = 0x1B then
        Inr (t\<lparr>parseState := \<lparr>state = Escape, params = [], current = [], intermediate = []\<rparr>\<rparr>)
      else if code = 0x08 then Inr (moveCursorLeft 1 t)
      else if code = 0x09 then Inr (tab t)
      else if code = 0x0A then lineFeed t
      else if code = 0x0D then Inr (carriageReturn t)
      else if code = 0x07 then Inr t
      else if code \<ge> 32 \<or> code = 0x0A then printChar code t
      else Inr t)"

definition handleEscapeChar :: "nat \<Rightarrow> terminal \<Rightarrow> error + terminal" where
  "handleEscapeChar c t =
     (if c = ord CHR ''['' then Inr (setState CSI t)
      else if c = ord CHR '']'' then Inr (setState OSC t)
      else if c = ord CHR ''D'' then thenE (index t) (\<lambda>t'. Inr (setState Normal t'))
      else if c = ord CHR ''M'' then thenE (reverseIndex t) (\<lambda>t'. Inr (setState Normal t'))
      else if c = ord CHR ''E'' then thenE (nextLine t) (\<lambda>t'. Inr (setState Normal t'))
      else if c = ord CHR ''7'' then Inr (setState Normal (saveCursor t))
      else if c = ord CHR ''8'' then Inr (setState Normal (restoreCursor t))
      else if c = ord CHR ''c'' then Inr (setState Normal (reset t))
      else Inr (setState Normal t))"

definition handleCSIChar :: "nat \<Rightarrow> terminal \<Rightarrow> error + terminal" where
  "handleCSIChar c t =
     (let ps = parseState t
      in if 48 \<le> c \<and> c \<le> 57 then Inr (t\<lparr>parseState := ps\<lparr>current := current ps @ [c]\<rparr>\<rparr>)
         else if c = ord CHR '';'' then
           thenE (parseIntOr0 (current ps))
             (\<lambda>n. Inr (t\<lparr>parseState := ps\<lparr>params := params ps @ [n], current := []\<rparr>\<rparr>))
         else if 32 \<le> c \<and> c \<le> 47 then
           Inr (t\<lparr>parseState := ps\<lparr>intermediate := intermediate ps @ [c]\<rparr>\<rparr>)
         else if c = ord CHR ''?'' then
           Inr (t\<lparr>parseState := ps\<lparr>intermediate := intermediate ps @ [c]\<rparr>\<rparr>)
         else
           thenE (if current ps \<noteq> []
                  then thenE (parseIntOr0 (current ps)) (\<lambda>n. Inr (ps\<lparr>params := params ps @ [n]\<rparr>))
                  else Inr ps)
             (\<lambda>ps1. thenE (handleCSISequence c (params ps1) (intermediate ps1)
                              (t\<lparr>parseState := ps1\<rparr>))
                      (\<lambda>t'. Inr (setState Normal t'))))"

definition handleOSCChar :: "nat \<Rightarrow> terminal \<Rightarrow> error + terminal" where
  "handleOSCChar c t =
     (if c = 0x07 \<or> c = 92 then Inr (setState Normal t) else Inr t)"

definition processChar :: "nat \<Rightarrow> terminal \<Rightarrow> error + terminal" where
  "processChar c t =
     (case state (parseState t) of
        Normal \<Rightarrow> handleNormalChar c t
      | Escape \<Rightarrow> handleEscapeChar c t
      | CSI \<Rightarrow> handleCSIChar c t
      | OSC \<Rightarrow> handleOSCChar c t)"

text \<open>The loop of \<open>write\<close> over the characters of the chunk.\<close>

definition processChars :: "nat list \<Rightarrow> terminal \<Rightarrow> error + terminal" where
  "processChars data t = foldE processChar data t"

subsection \<open>Change listeners\<close>

text \<open>
  What the terminal does to the world outside it: the change events it hands to
  \<open>notifyChangeListeners\<close>, the listener calls it makes, in order, and the exceptions it
  writes to \<open>console.error\<close>.
\<close>

record effects =
  notified :: "changeData list"
  delivered :: "(nat \<times> changeData) list"
  consoleErrors :: "error list"

definition noEffects :: effects where
  "noEffects = \<lparr>notified = [], delivered = [], consoleErrors = []\<rparr>"

text \<open>\<open>changeListeners.add\<close> and \<open>.delete\<close> of a \<open>Set\<close>, which iterates in insertion order.
  That the callback is a function, which \<open>onScreenChange\<close> tests, holds by its type.\<close>

definition onScreenChange :: "listener \<Rightarrow> terminal \<Rightarrow> terminal" where
  "onScreenChange l t =
     (if ident l \<in> ident ` set (changeListeners t) then t
      else t\<lparr>changeListeners := changeListeners t @ [l]\<rparr>)"

definition offScreenChange :: "listener \<Rightarrow> terminal \<Rightarrow> terminal" where
  "offScreenChange l t =
     t\<lparr>changeListeners := filter (\<lambda>l'. ident l' \<noteq> ident l) (changeListeners t)\<rparr>"

text \<open>A call of a listener: it is made, and it returns or raises.\<close>

definition callListener :: "listener \<Rightarrow> changeData \<Rightarrow> effects \<Rightarrow> (error \<times> effects) + effects" where
  "callListener l cd fx =
     (let fx' = fx\<lparr>delivered := delivered fx @ [(ident l, cd)]\<rparr>
      in if raises l cd then Inl (ListenerError (ident l), fx') else Inr fx')"

text \<open>\<open>try { listener(changeData) } catch (error) { console.error(...) }\<close>\<close>

definition tryListener :: "listener \<Rightarrow> changeData \<Rightarrow> effects \<Rightarrow> (error \<times> effects) + effects" where
  "tryListener l cd fx =
     (case callListener l cd fx of
        Inl (e, fx') \<Rightarrow> Inr (fx'\<lparr>consoleErrors := consoleErrors fx' @ [e]\<rparr>)
      | Inr fx' \<Rightarrow> Inr fx')"

fun notifyLoop :: "listener list \<Rightarrow> changeData \<Rightarrow> effects \<Rightarrow> (error \<times> effects) + effects" where
  "notifyLoop [] cd fx = Inr fx"
| "notifyLoop (l # ls) cd fx =
     (case tryListener l cd fx of
        Inl e \<Rightarrow> Inl e
      | Inr fx' \<Rightarrow> notifyLoop ls cd fx')"

definition notifyChangeListeners :: "terminal \<Rightarrow> changeData \<Rightarrow> effects \<Rightarrow> (error \<times> effects) + effects" where
  "notifyChangeListeners t cd fx =
     notifyLoop (changeListeners t) cd (fx\<lparr>notified := notified fx @ [cd]\<rparr>)"

subsection \<open>write\<close>

text \<open>The method \<open>write\<close>; the name alone is taken by Isar.\<close>

definition writeChunk :: "nat list \<Rightarrow> terminal \<Rightarrow> effects \<Rightarrow> error + terminal \<times> effects" where
  "writeChunk data t fx =
     (let textBefore = toString t
      in thenE (processChars data t) (\<lambda>t1.
           let textAfter = toString t1;
               hasChanged = (textBefore \<noteq> textAfter)
           in if hasChanged then
                (let t2 = t1\<lparr>frameCounter := frameCounter t1 + 1,
                             hasChangedSinceLastCheck := True\<rparr>;
                     cd = \<lparr>frameNumber = frameCounter t2, screenBefore = textBefore,
                           screenAfter = textAfter, cursorPosition = getCursorPosition t2,
                           inputData = data\<rparr>
                 in case notifyChangeListeners t2 cd fx of
                      Inl (e, fx') \<Rightarrow> Inl e
                    | Inr fx' \<Rightarrow> Inr (t2, fx'))
              else Inr (t1, fx)))"

text \<open>A sequence of \<open>write\<close> calls, one chunk each.\<close>

fun writes :: "nat list list \<Rightarrow> terminal \<Rightarrow> effects \<Rightarrow> error + terminal \<times> effects" where
  "writes [] t fx = Inr (t, fx)"
| "writes (d # ds) t fx = thenE (writeChunk d t fx) (\<lambda>(t', fx'). writes ds t' fx')"

subsection \<open>resize\<close>

text \<open>The new dimensions are taken to be lengths of arrays, as in the constructor: for any
  other number \<open>Array(n)\<close> in \<open>createEmptyBuffer\<close> raises a RangeError, which the model
  leaves out.\<close>

definition copyCell :: "buffer \<Rightarrow> int \<Rightarrow> int \<Rightarrow> buffer \<Rightarrow> error + buffer" where
  "copyCell old y x b =
     thenE (getRow old y) (\<lambda>r. thenE (getCell r x) (\<lambda>c. putCell y x c b))"

definition resize :: "nat \<Rightarrow> nat \<Rightarrow> terminal \<Rightarrow> error + terminal" where
  "resize newCols newRows t =
     (let oldBuffer = buffer t; oldCols = cols t; oldRows = rows t;
          t1 = t\<lparr>cols := newCols, rows := newRows\<rparr>;
          t2 = t1\<lparr>buffer := createEmptyBuffer t1\<rparr>;
          copyRows = min oldRows newRows;
          copyCols = min oldCols newCols
      in thenE (onBuffer (foldE (\<lambda>y. foldE (copyCell oldBuffer y) [0..int copyCols - 1])
                            [0..int copyRows - 1]) t2)
           (\<lambda>t3. Inr (t3\<lparr>cursor := Pos (min (posx (cursor t3)) (int newCols - 1))
                                      (min (posy (cursor t3)) (int newRows - 1)),
                          scrollRegion := (scrollRegion t3)
                             \<lparr>bottomRow := min (bottomRow (scrollRegion t3)) (int newRows - 1)\<rparr>\<rparr>)))"

subsection \<open>Notions used by the statements\<close>

text \<open>The lines of a text, as \<open>split('\n')\<close> gives them.\<close>

fun splitLines :: "nat list \<Rightarrow> nat list list" where
  "splitLines [] = [[]]"
| "splitLines (c # cs) =
     (if c = 10 then [] # splitLines cs
      else (case splitLines cs of l # ls \<Rightarrow> (c # l) # ls | [] \<Rightarrow> [[c]]))"

text \<open>A position inside the grid; the column \<open>cols\<close> is the one a cursor has after a
  character was printed in the last column, before the wrap.\<close>

definition cursorIn :: "terminal \<Rightarrow> pos \<Rightarrow> bool" where
  "cursorIn t p \<longleftrightarrow>
     0 \<le> posx p \<and> posx p \<le> int (cols t) \<and> 0 \<le> posy p \<and> posy p < int (rows t)"

text \<open>The cursor, the saved cursor and the cursor of the alternate-screen snapshot are
  inside the grid, and the scroll region starts inside it.\<close>

definition cursorsOK :: "terminal \<Rightarrow> bool" where
  "cursorsOK t \<longleftrightarrow>
     0 < cols t \<and> cursorIn t (cursor t) \<and> cursorIn t (savedCursor t) \<and>
     (case altScreenBuffer t of None \<Rightarrow> True | Some s \<Rightarrow> cursorIn t (savedPos s)) \<and>
     0 \<le> topRow (scrollRegion t) \<and> topRow (scrollRegion t) < int (rows t)"



text \<open>While the characters are processed, the terminal is in alternate-screen mode after
  each of them; and the same over a sequence of \<open>write\<close> calls. Like \<open>regionStaysIn\<close>,
  these speak of the states that the run reaches, and say nothing on whether it returns.\<close>

fun staysAlt :: "nat list \<Rightarrow> terminal \<Rightarrow> bool" where
  "staysAlt [] t = True"
| "staysAlt (c # cs) t =
     (case processChar c t of
        Inl e \<Rightarrow> True
      | Inr t' \<Rightarrow> isAltScreen t' \<and> staysAlt cs t')"

fun staysAltWrites :: "nat list list \<Rightarrow> terminal \<Rightarrow> effects \<Rightarrow> bool" where
  "staysAltWrites [] t fx = True"
| "staysAltWrites (d # ds) t fx =
     (staysAlt d t \<and>
      (case writeChunk d t fx of
         Inl e \<Rightarrow> True
       | Inr (t', fx') \<Rightarrow> staysAltWrites ds t' fx'))"

text \<open>A buffer of \<open>n\<close> rows with at least \<open>m\<close> cells each. (Erase-in-line can leave a
  row one cell longer than \<open>cols\<close>.)\<close>

definition grid :: "nat \<Rightarrow> nat \<Rightarrow> buffer \<Rightarrow> bool" where
  "grid n m b \<longleftrightarrow> length b = n \<and> list_all (\<lambda>r. m \<le> length r) b"

text \<open>The buffer and the buffer of the snapshot are grids of the terminal's dimensions, and
  the scroll region ends inside the grid.\<close>

definition gridOK :: "terminal \<Rightarrow> bool" where
  "gridOK t \<longleftrightarrow>
     grid (rows t) (cols t) (buffer t) \<and>
     (case altScreenBuffer t of None \<Rightarrow> True | Some s \<Rightarrow> grid (rows t) (cols t) (savedBuffer s)) \<and>
     0 \<le> bottomRow (scrollRegion t) \<and> bottomRow (scrollRegion t) < int (rows t)"

text \<open>A row with its first \<open>n\<close> cells blanked, as \<open>clearLine\<close> leaves it.\<close>

definition clearedRow :: "nat \<Rightarrow> attr \<Rightarrow> row \<Rightarrow> row" where
  "clearedRow n a r = replicate n (blank a) @ drop n r"

text \<open>A function of the terminal that does not read the screen state (buffer, cursors,
  cursor visibility, scroll region, attributes, parse state), and one that does not read
  the alternate-screen state.\<close>

definition ignoresScreen :: "(terminal \<Rightarrow> 'a) \<Rightarrow> bool" where
  "ignoresScreen g \<longleftrightarrow>
     (\<forall>t v. g (t\<lparr>buffer := v\<rparr>) = g t) \<and>
     (\<forall>t v. g (t\<lparr>cursor := v\<rparr>) = g t) \<and>
     (\<forall>t v. g (t\<lparr>savedCursor := v\<rparr>) = g t) \<and>
     (\<forall>t v. g (t\<lparr>cursorVisible := v\<rparr>) = g t) \<and>
     (\<forall>t v. g (t\<lparr>scrollRegion := v\<rparr>) = g t) \<and>
     (\<forall>t v. g (t\<lparr>currentAttr := v\<rparr>) = g t) \<and>
     (\<forall>t v. g (t\<lparr>parseState := v\<rparr>) = g t)"


text \<open>The exceptions of array accesses.\<close>

definition arrayError :: "error \<Rightarrow> bool" where
  "arrayError e \<longleftrightarrow> e = TypeError \<or> e = SparseArray"

text \<open>Concrete runs that the statements below evaluate.\<close>

definition resetScenario :: "error + terminal \<times> effects" where
  "resetScenario =
     writes [str ''ab'', 27 # str ''[1;31m'', 27 # str ''[?1049h'', 27 # str ''[2;2H'',
             27 # str ''[s'', 27 # str ''[?25l'', 27 # str ''[2;3r'', 27 # str ''[5'']
       (onScreenChange (Listener 1 (\<lambda>cd. False)) (new 3 2)) noEffects"

definition listenerScenario :: terminal where
  "listenerScenario =
     onScreenChange (Listener 2 (\<lambda>cd. False))
       (onScreenChange (Listener 1 (\<lambda>cd. True)) (new 20 5))"

definition mainScreen :: "error + terminal \<times> effects" where
  "mainScreen = writes [str ''Main'' @ 10 # str ''Screen'' @ 10 # str ''Text''] (new 5 3) noEffects"


definition regionScenario :: "error + terminal \<times> effects" where
  "regionScenario =
     writes [str ''ab'', 27 # str ''[2;3r'', str ''cd'' @ 10 # str ''ef''] (new 2 3) noEffects"

definition aboveRegionScenario :: "error + terminal \<times> effects" where
  "aboveRegionScenario =
     writes [str ''ab'', 27 # str ''[2;3r'', str ''cd'', 27 # str ''[A''] (new 2 3) noEffects"

definition fullScenario :: "error + terminal \<times> effects" where
  "fullScenario = writes [str ''ab'' @ 10 # str ''cd'' @ 10 # str ''ef''] (new 2 3) noEffects"

section \<open>Basic facts\<close>

lemma thenE_Inr [simp]: "thenE (Inr a) f = f a"
  by (simp add: thenE_def)

lemma thenE_Inl [simp]: "thenE (Inl e) f = Inl e"
  by (simp add: thenE_def)

lemma thenE_eq_Inr: "thenE m f = Inr y \<longleftrightarrow> (\<exists>a. m = Inr a \<and> f a = Inr y)"
  by (cases m) simp_all

lemma thenE_eq_Inl: "thenE m f = Inl e \<longleftrightarrow> m = Inl e \<or> (\<exists>a. m = Inr a \<and> f a = Inl e)"
  by (cases m) simp_all

lemma foldE_append: "foldE f (xs @ ys) s = thenE (foldE f xs s) (foldE f ys)"
proof (induction xs arbitrary: s)
  case Nil
  show ?case by simp
next
  case (Cons x xs)
  show ?case
    by (cases "f x s") (simp_all add: Cons.IH)
qed

lemma onBuffer_Inr:
  assumes "onBuffer f t = Inr t'"
  obtains b where "f (buffer t) = Inr b" and "t' = t\<lparr>buffer := b\<rparr>"
  using assms by (auto simp: onBuffer_def thenE_eq_Inr)

lemma ranE:
  assumes "case r of Inl e \<Rightarrow> False | Inr (t, fx) \<Rightarrow> P t fx"
  obtains t fx where "r = Inr (t, fx)" and "P t fx"
  using assms by (cases r) auto

section \<open>reset\<close>

text \<open>
  C10. \<open>reset()\<close> gives the buffer blank cells (with the attribute current before the
  reset), puts the cursor and the saved cursor at the origin, makes the scroll region the
  whole height, the attributes the default ones, the cursor visible, and leaves the
  alternate screen with no snapshot kept. The frame counter, the listeners, the
  unread-change flag, the parse state and the dimensions are as before. \<open>ESC c\<close> runs it:
  in the escape state the character \<open>c\<close> calls \<open>reset\<close> and then returns the parser to
  the normal state.
\<close>

theorem reset_frame:
  "buffer (reset t) = replicate (rows t) (replicate (cols t) (Cell 32 (Some (currentAttr t)))) \<and>
   cursor (reset t) = Pos 0 0 \<and>
   savedCursor (reset t) = Pos 0 0 \<and>
   scrollRegion (reset t) = \<lparr>topRow = 0, bottomRow = int (rows t) - 1\<rparr> \<and>
   currentAttr (reset t) = defaultAttr \<and>
   cursorVisible (reset t) \<and>
   \<not> isAltScreen (reset t) \<and>
   altScreenBuffer (reset t) = None \<and>
   frameCounter (reset t) = frameCounter t \<and>
   changeListeners (reset t) = changeListeners t \<and>
   hasChangedSinceLastCheck (reset t) = hasChangedSinceLastCheck t \<and>
   parseState (reset t) = parseState t \<and>
   cols (reset t) = cols t \<and> rows (reset t) = rows t \<and>
   handleEscapeChar (ord CHR ''c'') t = Inr (setState Normal (reset t))"
  by (simp add: reset_def createEmptyBuffer_def emptyBuffer_def handleEscapeChar_def ord_def)

text \<open>
  The theorem at a state where every field named differs from its initial value: a
  listener, one frame for \<open>ab\<close> and one for the switch to the alternate screen, a moved
  and saved cursor, a scroll region, red bold attributes, a hidden cursor, and a CSI
  sequence cut off after its first digit.
\<close>

theorem reset_frame_witness:
  "(case resetScenario of
      Inl e \<Rightarrow> False
    | Inr (t, fx) \<Rightarrow>
        cursor t = Pos 0 1 \<and> cursor (reset t) = Pos 0 0 \<and>
        savedCursor t = Pos 1 1 \<and> savedCursor (reset t) = Pos 0 0 \<and>
        scrollRegion t = \<lparr>topRow = 1, bottomRow = 1\<rparr> \<and>
        scrollRegion (reset t) = \<lparr>topRow = 0, bottomRow = 1\<rparr> \<and>
        currentAttr t \<noteq> defaultAttr \<and> currentAttr (reset t) = defaultAttr \<and>
        \<not> cursorVisible t \<and> cursorVisible (reset t) \<and>
        isAltScreen t \<and> \<not> isAltScreen (reset t) \<and>
        altScreenBuffer t \<noteq> None \<and> altScreenBuffer (reset t) = None \<and>
        frameCounter t = 2 \<and> frameCounter (reset t) = 2 \<and>
        map ident (changeListeners t) = [1] \<and> map ident (changeListeners (reset t)) = [1] \<and>
        hasChangedSinceLastCheck t \<and> hasChangedSinceLastCheck (reset t) \<and>
        state (parseState t) = CSI \<and> state (parseState (reset t)) = CSI \<and>
        current (parseState t) = [53] \<and> current (parseState (reset t)) = [53])"
proof -
  have "(case resetScenario of
      Inl e \<Rightarrow> False
    | Inr (t, fx) \<Rightarrow>
        cursor t = Pos 0 1 \<and> savedCursor t = Pos 1 1 \<and> rows t = 2 \<and>
        scrollRegion t = \<lparr>topRow = 1, bottomRow = 1\<rparr> \<and>
        currentAttr t \<noteq> defaultAttr \<and> \<not> cursorVisible t \<and> isAltScreen t \<and>
        altScreenBuffer t \<noteq> None \<and> frameCounter t = 2 \<and>
        map ident (changeListeners t) = [1] \<and> hasChangedSinceLastCheck t \<and>
        state (parseState t) = CSI \<and> current (parseState t) = [53])"
    by code_simp
  then obtain t fx where r: "resetScenario = Inr (t, fx)"
    and f: "cursor t = Pos 0 1 \<and> savedCursor t = Pos 1 1 \<and> rows t = 2 \<and>
        scrollRegion t = \<lparr>topRow = 1, bottomRow = 1\<rparr> \<and>
        currentAttr t \<noteq> defaultAttr \<and> \<not> cursorVisible t \<and> isAltScreen t \<and>
        altScreenBuffer t \<noteq> None \<and> frameCounter t = 2 \<and>
        map ident (changeListeners t) = [1] \<and> hasChangedSinceLastCheck t \<and>
        state (parseState t) = CSI \<and> current (parseState t) = [53]"
    by (rule ranE)
  show ?thesis
    using f reset_frame [of t] by (simp add: r)
qed

section \<open>The shape of the screen text\<close>

text \<open>
  C5. The screen text is \<open>rows\<close> lines of \<open>cols\<close> characters each. Two runs where it is
  not. In a 5 by 3 terminal, \<open>Hello\<close> leaves the cursor in column 5, and erase-in-line
  mode 1 then blanks the columns 0 to 5: the first line has 6 characters. And a resize
  while the alternate screen is on does not resize the snapshot: after 5 by 3 is resized to
  8 by 2, leaving the alternate screen brings back 3 lines of 5 characters.
\<close>

theorem screen_text_shape_fails:
  "(case writeChunk (str ''Hello'' @ 27 # str ''[1K'') (new 5 3) noEffects of
      Inl e \<Rightarrow> False
    | Inr (t, fx) \<Rightarrow>
        cols t = 5 \<and> rows t = 3 \<and> map length (splitLines (getScreenText t)) = [6, 5, 5]) \<and>
   (case thenE (writeChunk (27 # str ''[?1049h'') (new 5 3) noEffects) (\<lambda>(t, fx).
           thenE (resize 8 2 t) (\<lambda>t'. writeChunk (27 # str ''[?1049l'') t' fx)) of
      Inl e \<Rightarrow> False
    | Inr (t, fx) \<Rightarrow>
        cols t = 8 \<and> rows t = 2 \<and> map length (splitLines (getScreenText t)) = [5, 5, 5])"
  by code_simp

section \<open>The scroll region\<close>

text \<open>
  C8. \<open>setScrollRegion\<close> bounds the top from below only and the bottom from above only.
  In a terminal of 3 rows, the sequence \<open>ESC [ 10 r\<close> stores the top row 9 and puts the
  cursor in row 9, and the next printed character raises a TypeError, for the buffer has
  no row 9. Called with bottom 0, it stores the bottom row -1.
\<close>

theorem setScrollRegion_top_unclamped:
  "(case writeChunk (27 # str ''[10r'') (new 5 3) noEffects of
      Inl e \<Rightarrow> False
    | Inr (t, fx) \<Rightarrow>
        rows t = 3 \<and> scrollRegion t = \<lparr>topRow = 9, bottomRow = 2\<rparr> \<and> cursor t = Pos 0 9 \<and>
        (case writeChunk (str ''A'') t fx of Inl e \<Rightarrow> e = TypeError | Inr r \<Rightarrow> False)) \<and>
   scrollRegion (setScrollRegion 10 10 (new 5 3)) = \<lparr>topRow = 9, bottomRow = 2\<rparr> \<and>
   scrollRegion (setScrollRegion 1 0 (new 5 3)) = \<lparr>topRow = 0, bottomRow = - 1\<rparr>"
  by code_simp

section \<open>What the operations leave alone\<close>

lemma foldE_shape:
  assumes "\<And>i s s'. f i s = Inr s' \<Longrightarrow> \<exists>b. s' = s\<lparr>buffer := b\<rparr>"
  shows "foldE f is t = Inr t' \<Longrightarrow> \<exists>b. t' = t\<lparr>buffer := b\<rparr>"
proof (induction "is" arbitrary: t)
  case Nil
  then have "t' = t\<lparr>buffer := buffer t\<rparr>" by simp
  then show ?case by blast
next
  case (Cons i "is")
  from Cons.prems obtain t1 where a: "f i t = Inr t1" and b: "foldE f is t1 = Inr t'"
    by (auto simp: thenE_eq_Inr)
  from assms [OF a] obtain b1 where "t1 = t\<lparr>buffer := b1\<rparr>" by blast
  moreover from Cons.IH [OF b] obtain b2 where "t' = t1\<lparr>buffer := b2\<rparr>" by blast
  ultimately have "t' = t\<lparr>buffer := b2\<rparr>" by simp
  then show ?case by blast
qed

lemma onBuffer_shape: "onBuffer f t = Inr t' \<Longrightarrow> \<exists>b. t' = t\<lparr>buffer := b\<rparr>"
  by (auto elim: onBuffer_Inr)

lemma clearLine_shape: "clearLine y t = Inr t' \<Longrightarrow> \<exists>b. t' = t\<lparr>buffer := b\<rparr>"
  unfolding clearLine_def by (rule onBuffer_shape)

lemma scrollUp_shape: "scrollUp n t = Inr t' \<Longrightarrow> \<exists>b. t' = t\<lparr>buffer := b\<rparr>"
  unfolding scrollUp_def by (rule onBuffer_shape)

lemma scrollDown_shape: "scrollDown n t = Inr t' \<Longrightarrow> \<exists>b. t' = t\<lparr>buffer := b\<rparr>"
  unfolding scrollDown_def by (rule onBuffer_shape)

lemma insertLines_shape: "insertLines n t = Inr t' \<Longrightarrow> \<exists>b. t' = t\<lparr>buffer := b\<rparr>"
  unfolding insertLines_def by (rule onBuffer_shape)

lemma deleteLines_shape: "deleteLines n t = Inr t' \<Longrightarrow> \<exists>b. t' = t\<lparr>buffer := b\<rparr>"
  unfolding deleteLines_def by (rule onBuffer_shape)

lemma deleteCharacters_shape: "deleteCharacters n t = Inr t' \<Longrightarrow> \<exists>b. t' = t\<lparr>buffer := b\<rparr>"
  unfolding deleteCharacters_def Let_def by (rule onBuffer_shape)

lemma foldE_clearLine_shape:
  assumes "foldE clearLine ys t = Inr t'"
  shows "\<exists>b. t' = t\<lparr>buffer := b\<rparr>"
proof (rule foldE_shape [where f = clearLine])
  fix i s s'
  assume "clearLine i s = Inr s'"
  then show "\<exists>b. s' = s\<lparr>buffer := b\<rparr>" by (rule clearLine_shape)
next
  show "foldE clearLine ys t = Inr t'" by fact
qed

lemma same_shape: "\<exists>b. t = t\<lparr>buffer := b\<rparr>"
  by (rule exI [of _ "buffer t"]) simp

lemma eraseInLine_shape: "eraseInLine m t = Inr t' \<Longrightarrow> \<exists>b. t' = t\<lparr>buffer := b\<rparr>"
  unfolding eraseInLine_def Let_def
  by (auto split: if_splits dest: onBuffer_shape clearLine_shape intro: same_shape)

lemma eraseInDisplay_shape:
  assumes "eraseInDisplay m t = Inr t'"
  shows "(\<exists>b. t' = t\<lparr>buffer := b\<rparr>) \<or> t' = clearScreen t"
proof -
  consider "m = 0" | "m = 1" | "m = 2" | "m \<noteq> 0 \<and> m \<noteq> 1 \<and> m \<noteq> 2" by blast
  then show ?thesis
  proof cases
    case 1
    with assms obtain t1 where a: "eraseInLine 0 t = Inr t1"
      and b: "foldE clearLine [posy (cursor t) + 1..int (rows t) - 1] t1 = Inr t'"
      by (auto simp: eraseInDisplay_def thenE_eq_Inr)
    from eraseInLine_shape [OF a] obtain b1 where "t1 = t\<lparr>buffer := b1\<rparr>" by blast
    moreover from foldE_clearLine_shape [OF b]
    obtain b2 where "t' = t1\<lparr>buffer := b2\<rparr>" by blast
    ultimately have "t' = t\<lparr>buffer := b2\<rparr>" by simp
    then show ?thesis by blast
  next
    case 2
    with assms obtain t1 where a: "foldE clearLine [0..posy (cursor t) - 1] t = Inr t1"
      and b: "eraseInLine 1 t1 = Inr t'"
      by (auto simp: eraseInDisplay_def thenE_eq_Inr)
    from foldE_clearLine_shape [OF a]
    obtain b1 where "t1 = t\<lparr>buffer := b1\<rparr>" by blast
    moreover from eraseInLine_shape [OF b] obtain b2 where "t' = t1\<lparr>buffer := b2\<rparr>" by blast
    ultimately have "t' = t\<lparr>buffer := b2\<rparr>" by simp
    then show ?thesis by blast
  next
    case 3
    with assms show ?thesis by (simp add: eraseInDisplay_def)
  next
    case 4
    with assms have "t' = t" by (simp add: eraseInDisplay_def)
    then show ?thesis using same_shape by blast
  qed
qed

lemma lineFeed_shape:
  assumes "lineFeed t = Inr t'"
  shows "\<exists>b. t' = t\<lparr>buffer := b,
                   cursor := Pos 0 (if posy (cursor t) \<ge> int (rows t) - 1 then posy (cursor t)
                                    else posy (cursor t) + 1)\<rparr>"
proof (cases "posy (cursor t) \<ge> int (rows t) - 1")
  case True
  with assms have "scrollUp 1 (t\<lparr>cursor := Pos 0 (posy (cursor t))\<rparr>) = Inr t'"
    by (simp add: lineFeed_def)
  from scrollUp_shape [OF this] obtain b
    where "t' = t\<lparr>cursor := Pos 0 (posy (cursor t))\<rparr>\<lparr>buffer := b\<rparr>" by blast
  with True have "t' = t\<lparr>buffer := b, cursor := Pos 0 (if posy (cursor t) \<ge> int (rows t) - 1
      then posy (cursor t) else posy (cursor t) + 1)\<rparr>" by simp
  then show ?thesis by blast
next
  case False
  with assms have "t' = t\<lparr>buffer := buffer t, cursor := Pos 0 (if posy (cursor t) \<ge> int (rows t) - 1
      then posy (cursor t) else posy (cursor t) + 1)\<rparr>"
    by (simp add: lineFeed_def)
  then show ?thesis by blast
qed

lemma printChar_shape:
  assumes "printChar c t = Inr t'"
  shows "\<exists>b. t' = t\<lparr>buffer := b,
                   cursor := (if posx (cursor t) \<ge> int (cols t)
                              then Pos 1 (if posy (cursor t) \<ge> int (rows t) - 1
                                          then posy (cursor t) else posy (cursor t) + 1)
                              else Pos (posx (cursor t) + 1) (posy (cursor t)))\<rparr>"
proof -
  from assms obtain t1 t2 where
    a: "(if posx (cursor t) \<ge> int (cols t)
         then lineFeed (t\<lparr>cursor := Pos 0 (posy (cursor t))\<rparr>) else Inr t) = Inr t1"
    and b: "onBuffer (putCell (posy (cursor t1)) (posx (cursor t1)) (Cell c (Some (currentAttr t1)))) t1 = Inr t2"
    and c: "t' = t2\<lparr>cursor := Pos (posx (cursor t2) + 1) (posy (cursor t2))\<rparr>"
    by (auto simp: printChar_def thenE_eq_Inr)
  from onBuffer_shape [OF b] obtain b2 where t2: "t2 = t1\<lparr>buffer := b2\<rparr>" by blast
  show ?thesis
  proof (cases "posx (cursor t) \<ge> int (cols t)")
    case True
    with a have "lineFeed (t\<lparr>cursor := Pos 0 (posy (cursor t))\<rparr>) = Inr t1" by simp
    from lineFeed_shape [OF this] have
      "\<exists>b1. t1 = t\<lparr>buffer := b1,
                cursor := Pos 0 (if posy (cursor t) \<ge> int (rows t) - 1 then posy (cursor t)
                                 else posy (cursor t) + 1)\<rparr>"
      by (simp cong: if_cong)
    then obtain b1 where
      "t1 = t\<lparr>buffer := b1,
                cursor := Pos 0 (if posy (cursor t) \<ge> int (rows t) - 1 then posy (cursor t)
                                 else posy (cursor t) + 1)\<rparr>"
      by blast
    with t2 c True have "t' = t\<lparr>buffer := b2,
                   cursor := (if posx (cursor t) \<ge> int (cols t)
                              then Pos 1 (if posy (cursor t) \<ge> int (rows t) - 1
                                          then posy (cursor t) else posy (cursor t) + 1)
                              else Pos (posx (cursor t) + 1) (posy (cursor t)))\<rparr>"
      by simp
    then show ?thesis by blast
  next
    case False
    with a have "t1 = t" by simp
    with t2 c False have "t' = t\<lparr>buffer := b2,
                   cursor := (if posx (cursor t) \<ge> int (cols t)
                              then Pos 1 (if posy (cursor t) \<ge> int (rows t) - 1
                                          then posy (cursor t) else posy (cursor t) + 1)
                              else Pos (posx (cursor t) + 1) (posy (cursor t)))\<rparr>"
      by simp
    then show ?thesis by blast
  qed
qed

lemma reverseIndex_shape:
  assumes "reverseIndex t = Inr t'"
  shows "\<exists>b. t' = t\<lparr>buffer := b,
                   cursor := Pos (posx (cursor t))
                     (if posy (cursor t) \<le> topRow (scrollRegion t) then posy (cursor t)
                      else posy (cursor t) - 1)\<rparr>"
proof (cases "posy (cursor t) \<le> topRow (scrollRegion t)")
  case True
  with assms have "scrollDown 1 t = Inr t'" by (simp add: reverseIndex_def)
  from scrollDown_shape [OF this] obtain b where "t' = t\<lparr>buffer := b\<rparr>" by blast
  with True have "t' = t\<lparr>buffer := b, cursor := Pos (posx (cursor t))
                     (if posy (cursor t) \<le> topRow (scrollRegion t) then posy (cursor t)
                      else posy (cursor t) - 1)\<rparr>" by simp
  then show ?thesis by blast
next
  case False
  with assms have "t' = t\<lparr>buffer := buffer t, cursor := Pos (posx (cursor t))
                     (if posy (cursor t) \<le> topRow (scrollRegion t) then posy (cursor t)
                      else posy (cursor t) - 1)\<rparr>" by (simp add: reverseIndex_def)
  then show ?thesis by blast
qed

lemma frame_shape: "ignoresScreen g \<Longrightarrow> \<exists>b. t' = t\<lparr>buffer := b\<rparr> \<Longrightarrow> g t' = g t"
  by (auto simp: ignoresScreen_def)

lemma clearScreen_frame: "ignoresScreen g \<Longrightarrow> g (clearScreen t) = g t"
  by (simp add: ignoresScreen_def clearScreen_def)

lemma eraseInDisplay_frame:
  "ignoresScreen g \<Longrightarrow> eraseInDisplay m t = Inr t' \<Longrightarrow> g t' = g t"
  by (auto dest!: eraseInDisplay_shape simp: ignoresScreen_def clearScreen_def)

lemma lineFeed_frame: "ignoresScreen g \<Longrightarrow> lineFeed t = Inr t' \<Longrightarrow> g t' = g t"
  by (auto dest!: lineFeed_shape simp: ignoresScreen_def)

lemma printChar_frame: "ignoresScreen g \<Longrightarrow> printChar c t = Inr t' \<Longrightarrow> g t' = g t"
  by (auto dest!: printChar_shape simp: ignoresScreen_def)

lemma reverseIndex_frame: "ignoresScreen g \<Longrightarrow> reverseIndex t = Inr t' \<Longrightarrow> g t' = g t"
  by (auto dest!: reverseIndex_shape simp: ignoresScreen_def)






lemma setState_frame: "ignoresScreen g \<Longrightarrow> g (setState s t) = g t"
  by (simp add: ignoresScreen_def setState_def)

text \<open>Every CSI sequence other than set mode and reset mode.\<close>

lemma handleCSISequence_frame:
  assumes "ignoresScreen g" and "handleCSISequence c ps im t = Inr t'"
    and "c \<noteq> ord CHR ''h''" and "c \<noteq> ord CHR ''l''"
  shows "g t' = g t"
proof -
  note sh = frame_shape [OF assms(1)]
  have plain: "g (moveCursorUp n t) = g t" "g (moveCursorDown n t) = g t"
    "g (moveCursorRight n t) = g t" "g (moveCursorLeft n t) = g t"
    "g (setCursorPosition a b t) = g t" "g (setScrollRegion a b t) = g t"
    "g (setGraphicRendition ps t) = g t" "g (saveCursor t) = g t" "g (restoreCursor t) = g t"
    for n a b
    using assms(1)
    by (simp_all add: ignoresScreen_def moveCursorUp_def moveCursorDown_def moveCursorRight_def
        moveCursorLeft_def setCursorPosition_def setScrollRegion_def setGraphicRendition_def
        saveCursor_def restoreCursor_def Let_def)
  from assms(2,3,4) show ?thesis
    unfolding handleCSISequence_def
    by (auto split: if_splits simp: plain eraseInDisplay_frame [OF assms(1)]
        dest!: eraseInLine_shape insertLines_shape deleteLines_shape deleteCharacters_shape
          scrollUp_shape scrollDown_shape intro: sh)
qed


lemma handleNormalChar_frame:
  assumes "ignoresScreen g" and "handleNormalChar c t = Inr t'"
  shows "g t' = g t"
proof -
  have plain: "g (moveCursorLeft n t) = g t" "g (tab t) = g t" "g (carriageReturn t) = g t"
    "g (t\<lparr>parseState := p\<rparr>) = g t" for n p
    using assms(1)
    by (simp_all add: ignoresScreen_def moveCursorLeft_def tab_def carriageReturn_def Let_def)
  from assms(2) show ?thesis
    unfolding handleNormalChar_def
    by (auto split: if_splits simp: plain lineFeed_frame [OF assms(1)] printChar_frame [OF assms(1)])
qed

text \<open>Every escape sequence other than the reset.\<close>

lemma handleEscapeChar_frame:
  assumes "ignoresScreen g" and "handleEscapeChar c t = Inr t'" and "c \<noteq> ord CHR ''c''"
  shows "g t' = g t"
proof -
  have plain: "g (setState s u) = g u" "g (saveCursor t) = g t" "g (restoreCursor t) = g t"
    for s u
    using assms(1)
    by (simp_all add: ignoresScreen_def setState_def saveCursor_def restoreCursor_def)
  from assms(2,3) show ?thesis
    unfolding handleEscapeChar_def index_def nextLine_def
    by (auto split: if_splits simp: plain thenE_eq_Inr lineFeed_frame [OF assms(1)]
        reverseIndex_frame [OF assms(1)] carriageReturn_def assms(1) [unfolded ignoresScreen_def])
qed


lemma handleOSCChar_frame: "ignoresScreen g \<Longrightarrow> handleOSCChar c t = Inr t' \<Longrightarrow> g t' = g t"
  by (auto simp: handleOSCChar_def setState_frame split: if_splits)

lemma handleCSIChar_cases:
  assumes "handleCSIChar c t = Inr t'"
  obtains (param) p where "t' = t\<lparr>parseState := p\<rparr>"
  | (final) p t1 where
      "handleCSISequence c (params p) (intermediate p) (t\<lparr>parseState := p\<rparr>) = Inr t1"
      and "t' = setState Normal t1"
proof -
  have "(\<exists>p. t' = t\<lparr>parseState := p\<rparr>) \<or>
    (\<exists>p t1. handleCSISequence c (params p) (intermediate p) (t\<lparr>parseState := p\<rparr>) = Inr t1 \<and>
       t' = setState Normal t1)"
  proof (cases "(48 \<le> c \<and> c \<le> 57) \<or> c = ord CHR '';'' \<or> (32 \<le> c \<and> c \<le> 47) \<or> c = ord CHR ''?''")
    case True
    with assms have "\<exists>p. t' = t\<lparr>parseState := p\<rparr>"
      unfolding handleCSIChar_def Let_def
      by (auto split: if_splits simp: thenE_eq_Inr)
    then show ?thesis ..
  next
    case False
    with assms obtain p t1 where
      p: "(if current (parseState t) \<noteq> []
           then thenE (parseIntOr0 (current (parseState t)))
                  (\<lambda>n. Inr ((parseState t)\<lparr>params := params (parseState t) @ [n]\<rparr>))
           else Inr (parseState t)) = Inr p"
      and h: "handleCSISequence c (params p) (intermediate p) (t\<lparr>parseState := p\<rparr>) = Inr t1"
      and t': "t' = setState Normal t1"
      unfolding handleCSIChar_def Let_def
      by (auto simp: thenE_eq_Inr)
    then show ?thesis by blast
  qed
  with that show thesis by blast
qed




section \<open>Exceptions\<close>

text \<open>
  What ends the processing of a character is the exception of an array access; or it is
  the stop of the model, and then the character belongs to a control sequence and the
  digits collected for its parameter stand for \<open>2^53\<close> or more.
\<close>

lemma arrayError_simps [simp]: "arrayError TypeError" "arrayError SparseArray"
  "\<not> arrayError Inexact" "\<not> arrayError (ListenerError n)"
  by (simp_all add: arrayError_def)

lemma thenE_err:
  assumes "thenE m f = Inl e"
    and "\<And>e. m = Inl e \<Longrightarrow> arrayError e"
    and "\<And>a e. f a = Inl e \<Longrightarrow> arrayError e"
  shows "arrayError e"
  using assms by (cases m) auto

lemma foldE_err:
  assumes "\<And>i s e. f i s = Inl e \<Longrightarrow> arrayError e"
  shows "foldE f is s = Inl e \<Longrightarrow> arrayError e"
proof (induction "is" arbitrary: s)
  case Nil
  then show ?case by simp
next
  case (Cons i "is")
  from Cons.prems show ?case
    by (auto simp: thenE_eq_Inl dest: assms Cons.IH)
qed

lemma repeatE_err:
  assumes "\<And>s e. f s = Inl e \<Longrightarrow> arrayError e"
  shows "repeatE n f s = Inl e \<Longrightarrow> arrayError e"
proof (induction n arbitrary: s)
  case 0
  then show ?case by simp
next
  case (Suc n)
  from Suc.prems show ?case
    by (auto simp: thenE_eq_Inl dest: assms Suc.IH)
qed

lemma onBuffer_err:
  assumes "\<And>b e. f b = Inl e \<Longrightarrow> arrayError e"
  shows "onBuffer f t = Inl e \<Longrightarrow> arrayError e"
  by (auto simp: onBuffer_def thenE_eq_Inl dest: assms)

lemma getRow_err: "getRow a i = Inl e \<Longrightarrow> arrayError e"
  by (auto simp: getRow_def split: if_splits)

lemma setAt_err: "setAt a i v = Inl e \<Longrightarrow> arrayError e"
  by (auto simp: setAt_def split: if_splits)

lemma getCell_err: "getCell r i = Inl e \<Longrightarrow> arrayError e"
  by (auto simp: getCell_def split: if_splits)

lemma putCell_err: "putCell y x c b = Inl e \<Longrightarrow> arrayError e"
  by (auto simp: putCell_def thenE_eq_Inl dest: getRow_err setAt_err)

lemma clearLineB_err: "clearLineB n a y b = Inl e \<Longrightarrow> arrayError e"
  unfolding clearLineB_def by (erule foldE_err [rotated]) (erule putCell_err)

lemma rowFromBelow_err: "rowFromBelow y b = Inl e \<Longrightarrow> arrayError e"
  by (auto simp: rowFromBelow_def thenE_eq_Inl dest: getRow_err setAt_err)

lemma rowFromAbove_err: "rowFromAbove y b = Inl e \<Longrightarrow> arrayError e"
  by (auto simp: rowFromAbove_def thenE_eq_Inl dest: getRow_err setAt_err)

lemma cellFromRight_err: "cellFromRight y x b = Inl e \<Longrightarrow> arrayError e"
  by (auto simp: cellFromRight_def thenE_eq_Inl dest: getRow_err getCell_err putCell_err)

lemma shiftUp_err:
  "thenE (foldE rowFromBelow ys b) (clearLineB n a y) = Inl e \<Longrightarrow> arrayError e"
  by (erule thenE_err) (erule foldE_err [rotated], erule rowFromBelow_err, erule clearLineB_err)

lemma shiftDown_err:
  "thenE (foldE rowFromAbove ys b) (clearLineB n a y) = Inl e \<Longrightarrow> arrayError e"
  by (erule thenE_err) (erule foldE_err [rotated], erule rowFromAbove_err, erule clearLineB_err)

lemma clearLine_err: "clearLine y t = Inl e \<Longrightarrow> arrayError e"
  unfolding clearLine_def by (erule onBuffer_err [rotated]) (erule clearLineB_err)

lemma scrollUp_err: "scrollUp n t = Inl e \<Longrightarrow> arrayError e"
  unfolding scrollUp_def scrollUpStep_def
  by (erule onBuffer_err [rotated], erule repeatE_err [rotated]) (erule shiftUp_err)

lemma scrollDown_err: "scrollDown n t = Inl e \<Longrightarrow> arrayError e"
  unfolding scrollDown_def scrollDownStep_def
  by (erule onBuffer_err [rotated], erule repeatE_err [rotated]) (erule shiftDown_err)

lemma insertLines_err: "insertLines n t = Inl e \<Longrightarrow> arrayError e"
  unfolding insertLines_def
  by (erule onBuffer_err [rotated], erule repeatE_err [rotated]) (erule shiftDown_err)

lemma deleteLines_err: "deleteLines n t = Inl e \<Longrightarrow> arrayError e"
  unfolding deleteLines_def
  by (erule onBuffer_err [rotated], erule repeatE_err [rotated]) (erule shiftUp_err)

lemma deleteCharacters_err: "deleteCharacters n t = Inl e \<Longrightarrow> arrayError e"
  unfolding deleteCharacters_def Let_def
  by (erule onBuffer_err [rotated], erule repeatE_err [rotated], erule thenE_err,
      erule foldE_err [rotated], erule cellFromRight_err, erule putCell_err)

lemma eraseRun_err:
  "onBuffer (foldE (\<lambda>x. putCell y x c) xs) t = Inl e \<Longrightarrow> arrayError e"
  by (erule onBuffer_err [rotated], erule foldE_err [rotated]) (erule putCell_err)

lemma eraseInLine_err: "eraseInLine m t = Inl e \<Longrightarrow> arrayError e"
  unfolding eraseInLine_def Let_def
  by (auto split: if_splits dest: eraseRun_err clearLine_err)

lemma foldE_clearLine_err: "foldE clearLine ys t = Inl e \<Longrightarrow> arrayError e"
  by (erule foldE_err [rotated]) (erule clearLine_err)

lemma eraseInDisplay_err: "eraseInDisplay m t = Inl e \<Longrightarrow> arrayError e"
  unfolding eraseInDisplay_def
  by (auto split: if_splits simp: thenE_eq_Inl dest: eraseInLine_err foldE_clearLine_err)

lemma lineFeed_err: "lineFeed t = Inl e \<Longrightarrow> arrayError e"
  unfolding lineFeed_def Let_def by (auto split: if_splits dest: scrollUp_err)

lemma printChar_err: "printChar c t = Inl e \<Longrightarrow> arrayError e"
  unfolding printChar_def
  by (auto split: if_splits simp: thenE_eq_Inl onBuffer_def dest: lineFeed_err putCell_err)

lemma reverseIndex_err: "reverseIndex t = Inl e \<Longrightarrow> arrayError e"
  unfolding reverseIndex_def by (auto split: if_splits dest: scrollDown_err)

lemma handleCSISequence_err: "handleCSISequence c ps im t = Inl e \<Longrightarrow> arrayError e"
  unfolding handleCSISequence_def
  by (auto split: if_splits dest: eraseInDisplay_err eraseInLine_err insertLines_err
      deleteLines_err deleteCharacters_err scrollUp_err scrollDown_err)

lemma handleNormalChar_err: "handleNormalChar c t = Inl e \<Longrightarrow> arrayError e"
  unfolding handleNormalChar_def
  by (auto split: if_splits dest: lineFeed_err printChar_err)

lemma handleEscapeChar_err: "handleEscapeChar c t = Inl e \<Longrightarrow> arrayError e"
  unfolding handleEscapeChar_def index_def nextLine_def
  by (auto split: if_splits simp: thenE_eq_Inl dest: lineFeed_err reverseIndex_err)

lemma parseIntOr0_err:
  "parseIntOr0 cs = Inl e \<Longrightarrow> e = Inexact \<and> 9007199254740992 \<le> decimal cs"
  by (auto simp: parseIntOr0_def split: if_splits)

lemma handleCSIChar_err:
  "handleCSIChar c t = Inl e \<Longrightarrow>
     arrayError e \<or> e = Inexact \<and> 9007199254740992 \<le> decimal (current (parseState t))"
  unfolding handleCSIChar_def Let_def
  by (auto split: if_splits simp: thenE_eq_Inl dest: handleCSISequence_err parseIntOr0_err)

lemma handleOSCChar_err: "handleOSCChar c t = Inl e \<Longrightarrow> arrayError e"
  unfolding handleOSCChar_def by (auto split: if_splits)

lemma processChar_err:
  "processChar c t = Inl e \<Longrightarrow>
     arrayError e \<or>
     e = Inexact \<and> state (parseState t) = CSI \<and>
       9007199254740992 \<le> decimal (current (parseState t))"
  unfolding processChar_def
  by (auto split: pstate.splits dest: handleNormalChar_err handleEscapeChar_err
      handleCSIChar_err handleOSCChar_err)

lemma processChars_err: "processChars d t = Inl e \<Longrightarrow> arrayError e \<or> e = Inexact"
  unfolding processChars_def
proof (induction d arbitrary: t)
  case Nil
  then show ?case by simp
next
  case (Cons c d)
  from Cons.prems show ?case
    by (auto simp: thenE_eq_Inl dest: processChar_err Cons.IH)
qed

section \<open>Change events\<close>

lemma notifyLoop_total:
  "\<exists>fx'. notifyLoop ls cd fx = Inr fx' \<and>
         notified fx' = notified fx \<and>
         delivered fx' = delivered fx @ map (\<lambda>l. (ident l, cd)) ls \<and>
         consoleErrors fx' =
           consoleErrors fx @ map (\<lambda>l. ListenerError (ident l)) (filter (\<lambda>l. raises l cd) ls)"
proof (induction ls arbitrary: fx)
  case Nil
  show ?case by simp
next
  case (Cons l ls)
  have "\<exists>fx1. tryListener l cd fx = Inr fx1 \<and> notified fx1 = notified fx \<and>
      delivered fx1 = delivered fx @ [(ident l, cd)] \<and>
      consoleErrors fx1 = consoleErrors fx @ (if raises l cd then [ListenerError (ident l)] else [])"
    by (cases "raises l cd") (simp_all add: tryListener_def callListener_def Let_def)
  then obtain fx1 where a: "tryListener l cd fx = Inr fx1"
    and b: "notified fx1 = notified fx" "delivered fx1 = delivered fx @ [(ident l, cd)]"
      "consoleErrors fx1 = consoleErrors fx @ (if raises l cd then [ListenerError (ident l)] else [])"
    by blast
  from Cons.IH [of fx1] a b show ?case by auto
qed

lemma notifyChangeListeners_total:
  "\<exists>fx'. notifyChangeListeners t cd fx = Inr fx' \<and>
         notified fx' = notified fx @ [cd] \<and>
         delivered fx' = delivered fx @ map (\<lambda>l. (ident l, cd)) (changeListeners t) \<and>
         consoleErrors fx' =
           consoleErrors fx @
           map (\<lambda>l. ListenerError (ident l)) (filter (\<lambda>l. raises l cd) (changeListeners t))"
  using notifyLoop_total [of "changeListeners t" cd "fx\<lparr>notified := notified fx @ [cd]\<rparr>"]
  by (simp add: notifyChangeListeners_def)

lemma toString_bookkeeping [simp]:
  "toString (t\<lparr>frameCounter := n, hasChangedSinceLastCheck := h\<rparr>) = toString t"
  by (simp add: toString_def)

text \<open>What a call of \<open>write\<close> that returns has done.\<close>

lemma writeChunk_Inr:
  assumes "writeChunk d t fx = Inr (t', fx')"
  obtains t1 where "processChars d t = Inr t1" and "toString t1 = toString t"
      and "t' = t1" and "fx' = fx"
  | t1 where "processChars d t = Inr t1" and "toString t1 \<noteq> toString t"
      and "t' = t1\<lparr>frameCounter := frameCounter t1 + 1, hasChangedSinceLastCheck := True\<rparr>"
      and "notifyChangeListeners t'
             \<lparr>frameNumber = frameCounter t1 + 1, screenBefore = toString t,
              screenAfter = toString t1, cursorPosition = cursor t1, inputData = d\<rparr> fx = Inr fx'"
proof -
  from assms obtain t1 where p: "processChars d t = Inr t1"
    and r: "(let textAfter = toString t1; hasChanged = (toString t \<noteq> textAfter)
           in if hasChanged then
                (let t2 = t1\<lparr>frameCounter := frameCounter t1 + 1,
                             hasChangedSinceLastCheck := True\<rparr>;
                     cd = \<lparr>frameNumber = frameCounter t2, screenBefore = toString t,
                           screenAfter = textAfter, cursorPosition = getCursorPosition t2,
                           inputData = d\<rparr>
                 in case notifyChangeListeners t2 cd fx of
                      Inl (e, fx') \<Rightarrow> Inl e
                    | Inr fx' \<Rightarrow> Inr (t2, fx'))
              else Inr (t1, fx)) = Inr (t', fx')"
    by (auto simp: writeChunk_def thenE_eq_Inr Let_def)
  show ?thesis
  proof (cases "toString t1 = toString t")
    case True
    with r have "t' = t1" "fx' = fx" by (simp_all add: Let_def)
    with p True show ?thesis by (rule that(1))
  next
    case False
    with r have "t' = t1\<lparr>frameCounter := frameCounter t1 + 1, hasChangedSinceLastCheck := True\<rparr>
        \<and> notifyChangeListeners t'
             \<lparr>frameNumber = frameCounter t1 + 1, screenBefore = toString t,
              screenAfter = toString t1, cursorPosition = cursor t1, inputData = d\<rparr> fx = Inr fx'"
      by (auto simp: Let_def getCursorPosition_def split: sum.splits prod.splits)
    with p False show ?thesis using that(2) by blast
  qed
qed






section \<open>Listeners\<close>

text \<open>
  C6. \<open>notifyChangeListeners\<close> returns normally, having called every registered listener
  in the order of the listener list, whichever of them raised; what they raised went to
  \<open>console.error\<close>. A listener registered anew is the last of the list. No call of
  \<open>write\<close> ends with the exception of a listener.
\<close>

theorem listeners_all_invoked:
  "(\<exists>fx'. notifyChangeListeners t cd fx = Inr fx' \<and>
          delivered fx' = delivered fx @ map (\<lambda>l. (ident l, cd)) (changeListeners t) \<and>
          consoleErrors fx' =
            consoleErrors fx @
            map (\<lambda>l. ListenerError (ident l)) (filter (\<lambda>l. raises l cd) (changeListeners t))) \<and>
   (ident l \<notin> ident ` set (changeListeners t) \<longrightarrow>
      changeListeners (onScreenChange l t) = changeListeners t @ [l]) \<and>
   writeChunk d t fx \<noteq> Inl (ListenerError n)"
proof -
  have "writeChunk d t fx \<noteq> Inl (ListenerError n)"
  proof
    assume w: "writeChunk d t fx = Inl (ListenerError n)"
    show False
    proof (cases "processChars d t")
      case (Inl e)
      with w have "e = ListenerError n" by (simp add: writeChunk_def)
      with processChars_err [OF Inl] show False by simp
    next
      case (Inr t1)
      let ?t2 = "t1\<lparr>frameCounter := frameCounter t1 + 1, hasChangedSinceLastCheck := True\<rparr>"
      let ?cd = "\<lparr>frameNumber = frameCounter ?t2, screenBefore = toString t,
              screenAfter = toString t1, cursorPosition = getCursorPosition ?t2, inputData = d\<rparr>"
      obtain fx' where "notifyChangeListeners ?t2 ?cd fx = Inr fx'"
        using notifyChangeListeners_total [of ?t2 ?cd fx] by blast
      with w Inr show False
        by (simp add: writeChunk_def Let_def split: if_splits)
    qed
  qed
  then show ?thesis
    using notifyChangeListeners_total [of t cd fx] by (auto simp: onScreenChange_def)
qed

text \<open>The theorem at the scenario of the tests: the listener registered first raises, the
  second is called all the same.\<close>

theorem listeners_all_invoked_witness:
  "(case notifyChangeListeners listenerScenario
           \<lparr>frameNumber = 1, screenBefore = [], screenAfter = str ''T'', cursorPosition = Pos 1 0,
            inputData = str ''T''\<rparr> noEffects of
      Inl e \<Rightarrow> False
    | Inr fx' \<Rightarrow> map fst (delivered fx') = [1, 2] \<and> consoleErrors fx' = [ListenerError 1]) \<and>
   map ident (changeListeners (onScreenChange (Listener 3 (\<lambda>cd. True)) listenerScenario)) = [1, 2, 3] \<and>
   (case writeChunk (str ''Test'') listenerScenario noEffects of
      Inl e \<Rightarrow> False
    | Inr (t', fx') \<Rightarrow> map fst (delivered fx') = [1, 2] \<and> consoleErrors fx' = [ListenerError 1])"
proof -
  let ?cd = "\<lparr>frameNumber = 1, screenBefore = [], screenAfter = str ''T'', cursorPosition = Pos 1 0,
            inputData = str ''T''\<rparr>"
  have s1: "map ident (changeListeners listenerScenario) = [1, 2] \<and>
    map (\<lambda>l. raises l ?cd) (changeListeners listenerScenario) = [True, False]"
    by code_simp
  then have s0: "3 \<notin> ident ` set (changeListeners listenerScenario)"
    by (metis image_set list.set(1) list.simps(15) insert_iff empty_iff numeral_eq_iff
        semiring_norm(84,86,88) num.distinct one_eq_numeral_iff)
  from s1 obtain l1 l2 where ls: "changeListeners listenerScenario = [l1, l2]"
    and l12: "ident l1 = 1" "ident l2 = 2" "raises l1 ?cd" "\<not> raises l2 ?cd"
    by auto
  note th = listeners_all_invoked [of listenerScenario ?cd noEffects "Listener 3 (\<lambda>cd. True)"
      "str ''Test''" 1]
  from th s0 have o: "changeListeners (onScreenChange (Listener 3 (\<lambda>cd. True)) listenerScenario) =
            changeListeners listenerScenario @ [Listener 3 (\<lambda>cd. True)]"
    by simp
  from th obtain fx' where n: "notifyChangeListeners listenerScenario ?cd noEffects = Inr fx'"
    and d: "delivered fx' = delivered noEffects @ map (\<lambda>l. (ident l, ?cd)) (changeListeners listenerScenario)"
    and c: "consoleErrors fx' = consoleErrors noEffects @
            map (\<lambda>l. ListenerError (ident l)) (filter (\<lambda>l. raises l ?cd) (changeListeners listenerScenario))"
    by blast
  have w: "case writeChunk (str ''Test'') listenerScenario noEffects of
      Inl e \<Rightarrow> False
    | Inr (t', fx') \<Rightarrow> map fst (delivered fx') = [1, 2] \<and> consoleErrors fx' = [ListenerError 1]"
    by code_simp
  show ?thesis
    using n d c o w ls l12 by (simp add: noEffects_def)
qed

section \<open>The alternate screen\<close>

lemma altState_ignoresScreen: "ignoresScreen (\<lambda>t. (isAltScreen t, altScreenBuffer t))"
  by (simp add: ignoresScreen_def)

lemma setMode_alt:
  "isAltScreen t \<Longrightarrow>
     isAltScreen (setMode ps im t) \<and> altScreenBuffer (setMode ps im t) = altScreenBuffer t"
  by (induction ps arbitrary: t) (simp_all add: enableAltScreen_def)

lemma resetMode_alt:
  "isAltScreen (resetMode ps im t) \<Longrightarrow>
     isAltScreen t \<and> altScreenBuffer (resetMode ps im t) = altScreenBuffer t"
proof (induction ps arbitrary: t)
  case Nil
  then show ?case by simp
next
  case (Cons p ps)
  let ?t1 = "if im = [63] then (if p = 25 then t\<lparr>cursorVisible := False\<rparr>
      else if p = 1049 then disableAltScreen t else t) else t"
  from Cons.prems have "isAltScreen (resetMode ps im ?t1)" by simp
  from Cons.IH [OF this] have a: "isAltScreen ?t1"
    and b: "altScreenBuffer (resetMode ps im ?t1) = altScreenBuffer ?t1" by simp_all
  from a have "isAltScreen t \<and> altScreenBuffer ?t1 = altScreenBuffer t"
    by (auto simp: disableAltScreen_def split: if_splits option.splits)
  with b show ?case by simp
qed

lemma handleCSISequence_alt:
  assumes "handleCSISequence c ps im t = Inr t'" and "isAltScreen t" and "isAltScreen t'"
  shows "altScreenBuffer t' = altScreenBuffer t"
proof -
  consider "c = ord CHR ''h''" | "c = ord CHR ''l''" | "c \<noteq> ord CHR ''h'' \<and> c \<noteq> ord CHR ''l''"
    by blast
  then show ?thesis
  proof cases
    case 1
    with assms(1) have "t' = setMode ps im t" by (simp add: handleCSISequence_def ord_def)
    with setMode_alt [OF assms(2)] show ?thesis by simp
  next
    case 2
    with assms(1) have "t' = resetMode ps im t" by (simp add: handleCSISequence_def ord_def)
    with resetMode_alt [of ps im t] assms(3) show ?thesis by simp
  next
    case 3
    with handleCSISequence_frame [OF altState_ignoresScreen assms(1)] show ?thesis by simp
  qed
qed

lemma processChar_alt:
  assumes "processChar c t = Inr t'" and "isAltScreen t" and "isAltScreen t'"
  shows "altScreenBuffer t' = altScreenBuffer t"
proof (cases "state (parseState t)")
  case Normal
  with assms(1) have "handleNormalChar c t = Inr t'" by (simp add: processChar_def)
  from handleNormalChar_frame [OF altState_ignoresScreen this] show ?thesis by simp
next
  case Escape
  with assms(1) have h: "handleEscapeChar c t = Inr t'" by (simp add: processChar_def)
  show ?thesis
  proof (cases "c = ord CHR ''c''")
    case True
    with h have "t' = setState Normal (reset t)" by (simp add: handleEscapeChar_def ord_def)
    then have "\<not> isAltScreen t'" by (simp add: setState_def reset_def)
    with assms(3) show ?thesis by simp
  next
    case False
    from handleEscapeChar_frame [OF altState_ignoresScreen h False] show ?thesis by simp
  qed
next
  case CSI
  with assms(1) have h: "handleCSIChar c t = Inr t'" by (simp add: processChar_def)
  from h show ?thesis
  proof (cases rule: handleCSIChar_cases)
    case (param p)
    then show ?thesis by simp
  next
    case (final p t1)
    from final(2) assms(3) have "isAltScreen t1" by (simp add: setState_def)
    with handleCSISequence_alt [OF final(1)] assms(2) have "altScreenBuffer t1 = altScreenBuffer t"
      by simp
    with final(2) show ?thesis by (simp add: setState_def)
  qed
next
  case OSC
  with assms(1) have "handleOSCChar c t = Inr t'" by (simp add: processChar_def)
  from handleOSCChar_frame [OF altState_ignoresScreen this] show ?thesis by simp
qed

lemma staysAlt_processChars:
  "staysAlt d t \<Longrightarrow> isAltScreen t \<Longrightarrow> processChars d t = Inr t' \<Longrightarrow>
     isAltScreen t' \<and> altScreenBuffer t' = altScreenBuffer t"
proof (induction d arbitrary: t)
  case Nil
  then show ?case by (simp add: processChars_def)
next
  case (Cons c d)
  from Cons.prems(3) obtain t1 where a: "processChar c t = Inr t1"
    and p: "processChars d t1 = Inr t'"
    by (auto simp: processChars_def thenE_eq_Inr)
  from Cons.prems(1) a have b: "isAltScreen t1" and s: "staysAlt d t1" by simp_all
  from processChar_alt [OF a Cons.prems(2) b] have "altScreenBuffer t1 = altScreenBuffer t" .
  with Cons.IH [OF s b p] show ?case by simp
qed

lemma staysAltWrites_writes:
  "staysAltWrites ds t fx \<Longrightarrow> isAltScreen t \<Longrightarrow> writes ds t fx = Inr (t', fx') \<Longrightarrow>
     isAltScreen t' \<and> altScreenBuffer t' = altScreenBuffer t"
proof (induction ds arbitrary: t fx)
  case Nil
  then show ?case by simp
next
  case (Cons d ds)
  from Cons.prems(3) obtain t1 fx1 where w: "writeChunk d t fx = Inr (t1, fx1)"
    and ws: "writes ds t1 fx1 = Inr (t', fx')"
    by (auto simp: thenE_eq_Inr)
  from Cons.prems(1) w have s: "staysAlt d t" and r: "staysAltWrites ds t1 fx1" by simp_all
  from w obtain u where u: "processChars d t = Inr u"
    and eq: "isAltScreen t1 = isAltScreen u \<and> altScreenBuffer t1 = altScreenBuffer u"
    by (cases rule: writeChunk_Inr) auto
  from staysAlt_processChars [OF s Cons.prems(2) u] eq
  have a1: "isAltScreen t1" and b1: "altScreenBuffer t1 = altScreenBuffer t" by simp_all
  from Cons.IH [OF r a1 ws] b1 show ?case by simp
qed

text \<open>
  C2, as amended. From a state in which the alternate screen is not on, set mode 1049,
  then make any sequence of \<open>write\<close> calls that return and after every character of which
  the terminal is still in alternate-screen mode: reset mode 1049 then gives back the
  screen text and the cursor of the state before.
\<close>

theorem alt_screen_round_trip:
  assumes "\<not> isAltScreen s"
    and "staysAltWrites ds (setMode [1049] [63] s) fx"
    and "writes ds (setMode [1049] [63] s) fx = Inr (t', fx')"
  shows "getScreenText (resetMode [1049] [63] t') = getScreenText s \<and>
         getCursorPosition (resetMode [1049] [63] t') = getCursorPosition s"
proof -
  let ?e = "setMode [1049] [63] s"
  from assms(1) have e: "isAltScreen ?e"
    "altScreenBuffer ?e = Some \<lparr>savedBuffer = buffer s, savedPos = cursor s\<rparr>"
    by (simp_all add: enableAltScreen_def clearScreen_def)
  from staysAltWrites_writes [OF assms(2) e(1) assms(3)]
  have a: "isAltScreen t'" and b: "altScreenBuffer t' = altScreenBuffer ?e" by simp_all
  from a b e(2) have "buffer (resetMode [1049] [63] t') = buffer s"
    "cursor (resetMode [1049] [63] t') = cursor s"
    by (simp_all add: disableAltScreen_def)
  then show ?thesis
    by (simp add: getScreenText_def toString_def getCursorPosition_def)
qed

text \<open>The theorem at the scenario of the tests.\<close>

theorem alt_screen_round_trip_witness:
  "(case mainScreen of
      Inl e \<Rightarrow> False
    | Inr (s, fx) \<Rightarrow>
        \<not> isAltScreen s \<and>
        staysAltWrites [str ''Alt'' @ 10 # str ''Buffer'' @ 10 # str ''Mode''] (setMode [1049] [63] s) fx \<and>
        (case writes [str ''Alt'' @ 10 # str ''Buffer'' @ 10 # str ''Mode''] (setMode [1049] [63] s) fx of
           Inl e \<Rightarrow> False
         | Inr (t', fx') \<Rightarrow>
             getScreenText t' \<noteq> getScreenText s \<and>
             getScreenText (resetMode [1049] [63] t') = getScreenText s \<and>
             getCursorPosition (resetMode [1049] [63] t') = getCursorPosition s) \<and>
        (case writes [27 # str ''[?1049h'', str ''Alt'' @ 10 # str ''Buffer'' @ 10 # str ''Mode'',
                      27 # str ''[?1049l''] s fx of
           Inl e \<Rightarrow> False
         | Inr (t', fx') \<Rightarrow>
             getScreenText t' = getScreenText s \<and> getCursorPosition t' = getCursorPosition s))"
proof -
  let ?ds = "[str ''Alt'' @ 10 # str ''Buffer'' @ 10 # str ''Mode'']"
  have "case mainScreen of
      Inl e \<Rightarrow> False
    | Inr (s, fx) \<Rightarrow>
        \<not> isAltScreen s \<and> staysAltWrites ?ds (setMode [1049] [63] s) fx \<and>
        (case writes ?ds (setMode [1049] [63] s) fx of
           Inl e \<Rightarrow> False
         | Inr (t', fx') \<Rightarrow> getScreenText t' \<noteq> getScreenText s) \<and>
        (case writes [27 # str ''[?1049h'', str ''Alt'' @ 10 # str ''Buffer'' @ 10 # str ''Mode'',
                      27 # str ''[?1049l''] s fx of
           Inl e \<Rightarrow> False
         | Inr (t', fx') \<Rightarrow>
             getScreenText t' = getScreenText s \<and> getCursorPosition t' = getCursorPosition s)"
    by code_simp
  then obtain s fx where r: "mainScreen = Inr (s, fx)"
    and f: "\<not> isAltScreen s \<and> staysAltWrites ?ds (setMode [1049] [63] s) fx \<and>
        (case writes ?ds (setMode [1049] [63] s) fx of
           Inl e \<Rightarrow> False
         | Inr (t', fx') \<Rightarrow> getScreenText t' \<noteq> getScreenText s) \<and>
        (case writes [27 # str ''[?1049h'', str ''Alt'' @ 10 # str ''Buffer'' @ 10 # str ''Mode'',
                      27 # str ''[?1049l''] s fx of
           Inl e \<Rightarrow> False
         | Inr (t', fx') \<Rightarrow>
             getScreenText t' = getScreenText s \<and> getCursorPosition t' = getCursorPosition s)"
    by (rule ranE)
  from f have h: "\<not> isAltScreen s" "staysAltWrites ?ds (setMode [1049] [63] s) fx" by simp_all
  from f have c: "case writes ?ds (setMode [1049] [63] s) fx of
           Inl e \<Rightarrow> False
         | Inr (t', fx') \<Rightarrow> getScreenText t' \<noteq> getScreenText s"
    and d: "case writes [27 # str ''[?1049h'', str ''Alt'' @ 10 # str ''Buffer'' @ 10 # str ''Mode'',
                      27 # str ''[?1049l''] s fx of
           Inl e \<Rightarrow> False
         | Inr (t', fx') \<Rightarrow>
             getScreenText t' = getScreenText s \<and> getCursorPosition t' = getCursorPosition s"
    by blast+
  from c obtain t' fx' where w: "writes ?ds (setMode [1049] [63] s) fx = Inr (t', fx')"
    and ne: "getScreenText t' \<noteq> getScreenText s"
    by (rule ranE)
  from alt_screen_round_trip [OF h w]
  have g: "getScreenText (resetMode [1049] [63] t') = getScreenText s"
    "getCursorPosition (resetMode [1049] [63] t') = getCursorPosition s"
    by simp_all
  from h d g ne show ?thesis
    by (simp only: r w sum.case prod.case simp_thms)
qed

text \<open>
  C2 as stated fails. With \<open>ESC c\<close> written while the alternate screen is on, \<open>reset\<close>
  drops the snapshot, and the reset of mode 1049 restores nothing: the screen stays
  blank and the cursor at the origin. And from a state that is in alternate-screen mode
  already, setting the mode takes no new snapshot, so resetting it brings back the older
  one.
\<close>

theorem alt_screen_round_trip_counterexample:
  "(case mainScreen of
      Inl e \<Rightarrow> False
    | Inr (s, fx) \<Rightarrow>
        \<not> isAltScreen s \<and>
        (case writes [27 # str ''[?1049h'', str ''Alt'' @ 27 # str ''c'', 27 # str ''[?1049l''] s fx of
           Inl e \<Rightarrow> False
         | Inr (t', fx') \<Rightarrow>
             getScreenText t' \<noteq> getScreenText s \<and>
             getCursorPosition t' \<noteq> getCursorPosition s)) \<and>
   (case thenE mainScreen (\<lambda>(s, fx). writes [27 # str ''[?1049h'', str ''Alt''] s fx) of
      Inl e \<Rightarrow> False
    | Inr (s, fx) \<Rightarrow>
        isAltScreen s \<and>
        (case writes [27 # str ''[?1049h'', str ''X'', 27 # str ''[?1049l''] s fx of
           Inl e \<Rightarrow> False
         | Inr (t', fx') \<Rightarrow>
             getScreenText t' \<noteq> getScreenText s \<and>
             getCursorPosition t' \<noteq> getCursorPosition s))"
  by code_simp

section \<open>Cursor positions are kept inside the grid\<close>

lemma cursorsOK_buffer [simp]: "cursorsOK (t\<lparr>buffer := b\<rparr>) = cursorsOK t"
  by (simp add: cursorsOK_def cursorIn_def split: option.splits)

lemma cursorsOK_parseState [simp]: "cursorsOK (t\<lparr>parseState := p\<rparr>) = cursorsOK t"
  by (simp add: cursorsOK_def cursorIn_def split: option.splits)

lemma cursorsOK_setState [simp]: "cursorsOK (setState s t) = cursorsOK t"
  by (simp add: setState_def)

































section \<open>Scrolling\<close>

lemma getRow_in: "0 \<le> i \<Longrightarrow> i < int (length a) \<Longrightarrow> getRow a i = Inr (a ! nat i)"
  by (simp add: getRow_def)

lemma setAt_in: "0 \<le> i \<Longrightarrow> i < int (length a) \<Longrightarrow> setAt a i v = Inr (a[nat i := v])"
  by (simp add: setAt_def)

lemma putCell_clearing:
  assumes "0 \<le> y" and "y < int (length b)"
  shows "putCell y (int n) c (b[nat y := replicate n c @ drop n r]) =
         Inr (b[nat y := replicate (Suc n) c @ drop (Suc n) r])"
proof -
  let ?r = "replicate n c @ drop n r"
  have row: "getRow (b[nat y := ?r]) y = Inr ?r"
    using assms by (simp add: getRow_def)
  have "setAt ?r (int n) c = Inr (replicate (Suc n) c @ drop (Suc n) r)"
  proof (cases "n < length r")
    case True
    then have "?r[n := c] = replicate n c @ (drop n r)[0 := c]"
      by (simp add: list_update_append)
    also have "(drop n r)[0 := c] = c # drop (Suc n) r"
      using True by (cases "drop n r") (auto simp: drop_Suc tl_drop [symmetric])
    finally have "?r[n := c] = replicate (Suc n) c @ drop (Suc n) r"
      by (simp add: replicate_append_same)
    with True show ?thesis by (simp add: setAt_def)
  next
    case False
    then show ?thesis by (simp add: setAt_def replicate_append_same)
  qed
  with row show ?thesis by (simp add: putCell_def)
qed

lemma thenE_Inr_right [simp]: "thenE m Inr = m"
  by (cases m) simp_all

lemma foldE_single [simp]: "foldE f [i] = f i"
  by (rule ext) (simp add: thenE_def split: sum.splits)

lemma upto_snoc: "[0..int (Suc n) - 1] = [0..int n - 1] @ [int n]"
  using upto_rec2 [of 0 "int n"] by simp

lemma clearLineB_in:
  assumes "0 \<le> y" and "y < int (length b)"
  shows "clearLineB n a y b = Inr (b[nat y := clearedRow n a (b ! nat y)])"
proof (induction n)
  case 0
  show ?case by (simp add: clearLineB_def clearedRow_def)
next
  case (Suc n)
  have "clearLineB (Suc n) a y b = thenE (clearLineB n a y b) (putCell y (int n) (blank a))"
    unfolding clearLineB_def upto_snoc foldE_append by simp
  with Suc show ?case
    using putCell_clearing [OF assms, of n "blank a" "b ! nat y"]
    by (simp add: clearedRow_def)
qed

text \<open>The loop of \<open>scrollUp\<close> and \<open>deleteLines\<close>: the rows from \<open>i\<close> to \<open>j\<close> take the
  content of the row below.\<close>

lemma shiftUp_in:
  "0 \<le> i \<Longrightarrow> j + 1 < int (length b) \<Longrightarrow>
     \<exists>b'. foldE rowFromBelow [i..j] b = Inr b' \<and> length b' = length b \<and>
          (\<forall>k<length b. b' ! k = (if i \<le> int k \<and> int k \<le> j then b ! Suc k else b ! k))"
proof (induction i j arbitrary: b rule: upto.induct)
  case (1 i j)
  show ?case
  proof (cases "i \<le> j")
    case False
    then show ?thesis by (auto simp: upto.simps)
  next
    case True
    let ?b1 = "b[nat i := b ! nat (i + 1)]"
    from True 1(2,3) have step: "rowFromBelow i b = Inr ?b1"
      by (simp add: rowFromBelow_def getRow_in setAt_in)
    from 1(1) [OF True, of ?b1] 1(2,3) obtain b' where
      f: "foldE rowFromBelow [i + 1..j] ?b1 = Inr b'" and l: "length b' = length b"
      and n: "\<forall>k<length b. b' ! k = (if i + 1 \<le> int k \<and> int k \<le> j then ?b1 ! Suc k else ?b1 ! k)"
      by auto
    from True step f have "foldE rowFromBelow [i..j] b = Inr b'"
      by (simp add: upto.simps [of i j])
    moreover have "b' ! k = (if i \<le> int k \<and> int k \<le> j then b ! Suc k else b ! k)"
      if "k < length b" for k
    proof -
      have s: "nat (i + 1) = Suc (nat i)" using 1(2) by simp
      from n that have "b' ! k = (if i + 1 \<le> int k \<and> int k \<le> j then ?b1 ! Suc k else ?b1 ! k)"
        by simp
      then show ?thesis
        using that 1(2) True s by (auto simp: nth_list_update)
    qed
    ultimately show ?thesis using l by blast
  qed
qed

text \<open>The loop of \<open>scrollDown\<close> and \<open>insertLines\<close>: the rows from \<open>j\<close> down to \<open>i\<close> take
  the content of the row above.\<close>

lemma shiftDown_in:
  "0 < i \<Longrightarrow> j < int (length b) \<Longrightarrow> nat (j + 1 - i) = n \<Longrightarrow>
     \<exists>b'. foldE rowFromAbove (rev [i..j]) b = Inr b' \<and> length b' = length b \<and>
          (\<forall>k<length b. b' ! k = (if i \<le> int k \<and> int k \<le> j then b ! (k - 1) else b ! k))"
proof (induction n arbitrary: j b)
  case 0
  then have "[i..j] = []" by simp
  with 0 show ?case by auto
next
  case (Suc n)
  from Suc.prems(3) have ij: "i \<le> j" by simp
  let ?b1 = "b[nat j := b ! nat (j - 1)]"
  from ij Suc.prems(1,2) have step: "rowFromAbove j b = Inr ?b1"
    by (simp add: rowFromAbove_def getRow_in setAt_in)
  from Suc.prems have "j - 1 < int (length ?b1)" "nat (j - 1 + 1 - i) = n" by simp_all
  from Suc.IH [OF Suc.prems(1) this] obtain b' where
    f: "foldE rowFromAbove (rev [i..j - 1]) ?b1 = Inr b'" and l: "length b' = length b"
    and n: "\<forall>k<length b. b' ! k = (if i \<le> int k \<and> int k \<le> j - 1 then ?b1 ! (k - 1) else ?b1 ! k)"
    by auto
  from ij step f have "foldE rowFromAbove (rev [i..j]) b = Inr b'"
    by (simp add: upto_rec2 [of i j])
  moreover have "b' ! k = (if i \<le> int k \<and> int k \<le> j then b ! (k - 1) else b ! k)"
    if "k < length b" for k
  proof -
    from n that have "b' ! k = (if i \<le> int k \<and> int k \<le> j - 1 then ?b1 ! (k - 1) else ?b1 ! k)"
      by simp
    then show ?thesis
      using that Suc.prems(1,2) ij by (auto simp: nth_list_update nat_eq_iff nat_diff_distrib')
  qed
  ultimately show ?case using l by blast
qed

lemma scrollUpStep_in:
  assumes "0 \<le> tp" and "0 \<le> bt" and "bt < int (length b)"
  shows "\<exists>b'. scrollUpStep tp bt n a b = Inr b' \<and> length b' = length b \<and>
          (\<forall>k<length b. b' ! k =
             (if tp \<le> int k \<and> int k < bt then b ! Suc k
              else if int k = bt then clearedRow n a (b ! k) else b ! k))"
proof -
  from shiftUp_in [of tp "bt - 1" b] assms obtain b1 where
    f: "foldE rowFromBelow [tp..bt - 1] b = Inr b1" and l: "length b1 = length b"
    and n: "\<forall>k<length b. b1 ! k = (if tp \<le> int k \<and> int k \<le> bt - 1 then b ! Suc k else b ! k)"
    by auto
  from n assms have e: "b1 ! nat bt = b ! nat bt" by simp
  let ?b2 = "b1[nat bt := clearedRow n a (b ! nat bt)]"
  from assms l e have "clearLineB n a bt b1 = Inr ?b2"
    by (simp add: clearLineB_in)
  with f have r: "scrollUpStep tp bt n a b = Inr ?b2"
    by (simp add: scrollUpStep_def)
  have "?b2 ! k = (if tp \<le> int k \<and> int k < bt then b ! Suc k
              else if int k = bt then clearedRow n a (b ! k) else b ! k)"
    if kl: "k < length b" for k
  proof (cases "int k = bt")
    case True
    then have "k = nat bt" by simp
    with kl l True show ?thesis by simp
  next
    case False
    then have "k \<noteq> nat bt" using assms(2) by auto
    moreover from n kl have "b1 ! k = (if tp \<le> int k \<and> int k \<le> bt - 1 then b ! Suc k else b ! k)"
      by simp
    ultimately show ?thesis using False by simp
  qed
  with r l show ?thesis by simp
qed

lemma scrollDownStep_in:
  assumes "0 \<le> tp" and "tp < int (length b)" and "bt < int (length b)"
  shows "\<exists>b'. scrollDownStep tp bt n a b = Inr b' \<and> length b' = length b \<and>
          (\<forall>k<length b. b' ! k =
             (if tp < int k \<and> int k \<le> bt then b ! (k - 1)
              else if int k = tp then clearedRow n a (b ! k) else b ! k))"
proof -
  from shiftDown_in [of "tp + 1" bt b "nat (bt + 1 - (tp + 1))"] assms obtain b1 where
    f: "foldE rowFromAbove (rev [tp + 1..bt]) b = Inr b1" and l: "length b1 = length b"
    and n: "\<forall>k<length b. b1 ! k = (if tp + 1 \<le> int k \<and> int k \<le> bt then b ! (k - 1) else b ! k)"
    by auto
  from n assms have e: "b1 ! nat tp = b ! nat tp" by simp
  let ?b2 = "b1[nat tp := clearedRow n a (b ! nat tp)]"
  from assms l e have "clearLineB n a tp b1 = Inr ?b2"
    by (simp add: clearLineB_in)
  with f have r: "scrollDownStep tp bt n a b = Inr ?b2"
    by (simp add: scrollDownStep_def)
  have "?b2 ! k = (if tp < int k \<and> int k \<le> bt then b ! (k - 1)
              else if int k = tp then clearedRow n a (b ! k) else b ! k)"
    if kl: "k < length b" for k
  proof (cases "int k = tp")
    case True
    then have "k = nat tp" by simp
    with kl l True show ?thesis by simp
  next
    case False
    then have "k \<noteq> nat tp" using assms(1) by auto
    moreover from n kl have "b1 ! k = (if tp + 1 \<le> int k \<and> int k \<le> bt then b ! (k - 1) else b ! k)"
      by simp
    ultimately show ?thesis using False by simp
  qed
  with r l show ?thesis by simp
qed

lemma scrollUp_once:
  assumes "0 \<le> topRow (scrollRegion t)" and "0 \<le> bottomRow (scrollRegion t)"
    and "bottomRow (scrollRegion t) < int (length (buffer t))"
  shows "\<exists>b. scrollUp 1 t = Inr (t\<lparr>buffer := b\<rparr>) \<and> length b = length (buffer t) \<and>
          (\<forall>k<length b. b ! k =
             (if topRow (scrollRegion t) \<le> int k \<and> int k < bottomRow (scrollRegion t)
              then buffer t ! Suc k
              else if int k = bottomRow (scrollRegion t)
              then clearedRow (cols t) (currentAttr t) (buffer t ! k) else buffer t ! k))"
  using scrollUpStep_in [OF assms, of "cols t" "currentAttr t"]
  by (auto simp: scrollUp_def onBuffer_def)

lemma scrollDown_once:
  assumes "0 \<le> topRow (scrollRegion t)" and "topRow (scrollRegion t) < int (length (buffer t))"
    and "bottomRow (scrollRegion t) < int (length (buffer t))"
  shows "\<exists>b. scrollDown 1 t = Inr (t\<lparr>buffer := b\<rparr>) \<and> length b = length (buffer t) \<and>
          (\<forall>k<length b. b ! k =
             (if topRow (scrollRegion t) < int k \<and> int k \<le> bottomRow (scrollRegion t)
              then buffer t ! (k - 1)
              else if int k = topRow (scrollRegion t)
              then clearedRow (cols t) (currentAttr t) (buffer t ! k) else buffer t ! k))"
  using scrollDownStep_in [OF assms, of "cols t" "currentAttr t"]
  by (auto simp: scrollDown_def onBuffer_def)

section \<open>lineFeed\<close>

text \<open>
  C4, as amended. \<open>lineFeed\<close> sets the column to 0. Above the last row of the buffer it
  moves the cursor down one row. In the last row (or below) it leaves the row as it is and
  scrolls the scroll region: every row from the top of the region to the row above its
  bottom takes the content of the row below, the bottom row of the region is blanked, and
  the rows outside the region stay. When the region is the whole buffer, that is the
  buffer without its first row, followed by a blank row.
\<close>

theorem lineFeed_scrolls_region:
  "(posy (cursor t) < int (rows t) - 1 \<longrightarrow>
      lineFeed t = Inr (t\<lparr>cursor := Pos 0 (posy (cursor t) + 1)\<rparr>)) \<and>
   (int (rows t) - 1 \<le> posy (cursor t) \<longrightarrow>
    0 \<le> topRow (scrollRegion t) \<longrightarrow> 0 \<le> bottomRow (scrollRegion t) \<longrightarrow>
    bottomRow (scrollRegion t) < int (length (buffer t)) \<longrightarrow>
      (\<exists>b. lineFeed t = Inr (t\<lparr>buffer := b, cursor := Pos 0 (posy (cursor t))\<rparr>) \<and>
           length b = length (buffer t) \<and>
           (\<forall>k<length b. b ! k =
              (if topRow (scrollRegion t) \<le> int k \<and> int k < bottomRow (scrollRegion t)
               then buffer t ! Suc k
               else if int k = bottomRow (scrollRegion t)
               then clearedRow (cols t) (currentAttr t) (buffer t ! k) else buffer t ! k)) \<and>
           (topRow (scrollRegion t) = 0 \<longrightarrow>
            bottomRow (scrollRegion t) = int (length (buffer t)) - 1 \<longrightarrow>
              b = tl (buffer t) @ [clearedRow (cols t) (currentAttr t) (last (buffer t))])))"
proof (intro conjI impI)
  assume "posy (cursor t) < int (rows t) - 1"
  then show "lineFeed t = Inr (t\<lparr>cursor := Pos 0 (posy (cursor t) + 1)\<rparr>)"
    by (simp add: lineFeed_def)
next
  assume y: "int (rows t) - 1 \<le> posy (cursor t)"
    and r: "0 \<le> topRow (scrollRegion t)" "0 \<le> bottomRow (scrollRegion t)"
      "bottomRow (scrollRegion t) < int (length (buffer t))"
  let ?t1 = "t\<lparr>cursor := Pos 0 (posy (cursor t))\<rparr>"
  let ?B = "buffer t"
  from scrollUp_once [of ?t1] r obtain b where
    s: "scrollUp 1 ?t1 = Inr (?t1\<lparr>buffer := b\<rparr>)" and l: "length b = length ?B"
    and n: "\<forall>k<length b. b ! k =
             (if topRow (scrollRegion t) \<le> int k \<and> int k < bottomRow (scrollRegion t)
              then ?B ! Suc k
              else if int k = bottomRow (scrollRegion t)
              then clearedRow (cols t) (currentAttr t) (?B ! k) else ?B ! k)"
    by auto
  from y s have lf: "lineFeed t = Inr (t\<lparr>buffer := b, cursor := Pos 0 (posy (cursor t))\<rparr>)"
    by (simp add: lineFeed_def)
  have full: "b = tl ?B @ [clearedRow (cols t) (currentAttr t) (last ?B)]"
    if tp: "topRow (scrollRegion t) = 0" and bt: "bottomRow (scrollRegion t) = int (length ?B) - 1"
  proof (rule nth_equalityI)
    from r(2) bt have ne: "?B \<noteq> []" by auto
    then show "length b = length (tl ?B @ [clearedRow (cols t) (currentAttr t) (last ?B)])"
      using l by simp
    fix k
    assume k: "k < length b"
    show "b ! k = (tl ?B @ [clearedRow (cols t) (currentAttr t) (last ?B)]) ! k"
    proof (cases "Suc k = length ?B")
      case True
      then have "length ?B - Suc 0 = k" by simp
      with True n k tp bt ne show ?thesis
        by (auto simp: nth_append last_conv_nth)
    next
      case False
      with k l have "Suc k < length ?B" by simp
      with n k tp bt ne show ?thesis
        by (auto simp: nth_append nth_tl)
    qed
  qed
  from lf l n full
  show "\<exists>b. lineFeed t = Inr (t\<lparr>buffer := b, cursor := Pos 0 (posy (cursor t))\<rparr>) \<and>
           length b = length (buffer t) \<and>
           (\<forall>k<length b. b ! k =
              (if topRow (scrollRegion t) \<le> int k \<and> int k < bottomRow (scrollRegion t)
               then buffer t ! Suc k
               else if int k = bottomRow (scrollRegion t)
               then clearedRow (cols t) (currentAttr t) (buffer t ! k) else buffer t ! k)) \<and>
           (topRow (scrollRegion t) = 0 \<longrightarrow>
            bottomRow (scrollRegion t) = int (length (buffer t)) - 1 \<longrightarrow>
              b = tl (buffer t) @ [clearedRow (cols t) (currentAttr t) (last (buffer t))])"
    by blast
qed

text \<open>The theorem in the first row of a new terminal, in the last row with the scroll region
  on the rows 1 to 2, and in the last row with the region on the whole buffer.\<close>

theorem lineFeed_scrolls_region_witness:
  "(case lineFeed (new 2 3) of Inl e \<Rightarrow> False | Inr t' \<Rightarrow> cursor t' = Pos 0 1) \<and>
   (case regionScenario of
      Inl e \<Rightarrow> False
    | Inr (t, fx) \<Rightarrow>
        cursor t = Pos 2 2 \<and> rows t = 3 \<and> scrollRegion t = \<lparr>topRow = 1, bottomRow = 2\<rparr> \<and>
        (case lineFeed t of
           Inl e \<Rightarrow> False
         | Inr t' \<Rightarrow>
             cursor t' = Pos 0 2 \<and> buffer t' ! 0 = buffer t ! 0 \<and> buffer t' ! 1 = buffer t ! 2 \<and>
             buffer t' ! 2 = clearedRow (cols t) (currentAttr t) (buffer t ! 2))) \<and>
   (case fullScenario of
      Inl e \<Rightarrow> False
    | Inr (t, fx) \<Rightarrow>
        cursor t = Pos 2 2 \<and> rows t = 3 \<and> scrollRegion t = \<lparr>topRow = 0, bottomRow = 2\<rparr> \<and>
        (case lineFeed t of
           Inl e \<Rightarrow> False
         | Inr t' \<Rightarrow>
             buffer t' = tl (buffer t) @ [clearedRow (cols t) (currentAttr t) (last (buffer t))]))"
proof -
  have "lineFeed (new 2 3) = Inr ((new 2 3)\<lparr>cursor := Pos 0 (posy (cursor (new 2 3)) + 1)\<rparr>)"
    using lineFeed_scrolls_region [of "new 2 3"] by (simp add: new_def)
  then have a: "case lineFeed (new 2 3) of Inl e \<Rightarrow> False | Inr t' \<Rightarrow> cursor t' = Pos 0 1"
    by (simp add: new_def)
  have "case regionScenario of
      Inl e \<Rightarrow> False
    | Inr (t, fx) \<Rightarrow>
        cursor t = Pos 2 2 \<and> rows t = 3 \<and> scrollRegion t = \<lparr>topRow = 1, bottomRow = 2\<rparr> \<and>
        length (buffer t) = 3"
    by code_simp
  then obtain t fx where r: "regionScenario = Inr (t, fx)"
    and f: "cursor t = Pos 2 2 \<and> rows t = 3 \<and> scrollRegion t = \<lparr>topRow = 1, bottomRow = 2\<rparr> \<and>
        length (buffer t) = 3"
    by (rule ranE)
  from lineFeed_scrolls_region [of t] f obtain b
    where lf: "lineFeed t = Inr (t\<lparr>buffer := b, cursor := Pos 0 (posy (cursor t))\<rparr>)"
      and l: "length b = 3"
      and n: "\<forall>k<length b. b ! k =
              (if topRow (scrollRegion t) \<le> int k \<and> int k < bottomRow (scrollRegion t)
               then buffer t ! Suc k
               else if int k = bottomRow (scrollRegion t)
               then clearedRow (cols t) (currentAttr t) (buffer t ! k) else buffer t ! k)"
    by auto
  from n l f have "b ! 0 = buffer t ! 0" "b ! 1 = buffer t ! 2"
    "b ! 2 = clearedRow (cols t) (currentAttr t) (buffer t ! 2)"
    by (simp_all add: numeral_2_eq_2)
  with lf f have "case lineFeed t of
           Inl e \<Rightarrow> False
         | Inr t' \<Rightarrow>
             cursor t' = Pos 0 2 \<and> buffer t' ! 0 = buffer t ! 0 \<and> buffer t' ! 1 = buffer t ! 2 \<and>
             buffer t' ! 2 = clearedRow (cols t) (currentAttr t) (buffer t ! 2)"
    by simp
  with f have b: "case regionScenario of
      Inl e \<Rightarrow> False
    | Inr (t, fx) \<Rightarrow>
        cursor t = Pos 2 2 \<and> rows t = 3 \<and> scrollRegion t = \<lparr>topRow = 1, bottomRow = 2\<rparr> \<and>
        (case lineFeed t of
           Inl e \<Rightarrow> False
         | Inr t' \<Rightarrow>
             cursor t' = Pos 0 2 \<and> buffer t' ! 0 = buffer t ! 0 \<and> buffer t' ! 1 = buffer t ! 2 \<and>
             buffer t' ! 2 = clearedRow (cols t) (currentAttr t) (buffer t ! 2))"
    by (simp only: r sum.case prod.case simp_thms)
  have "case fullScenario of
      Inl e \<Rightarrow> False
    | Inr (t, fx) \<Rightarrow>
        cursor t = Pos 2 2 \<and> rows t = 3 \<and> scrollRegion t = \<lparr>topRow = 0, bottomRow = 2\<rparr> \<and>
        length (buffer t) = 3"
    by code_simp
  then obtain u gx where ru: "fullScenario = Inr (u, gx)"
    and g: "cursor u = Pos 2 2 \<and> rows u = 3 \<and> scrollRegion u = \<lparr>topRow = 0, bottomRow = 2\<rparr> \<and>
        length (buffer u) = 3"
    by (rule ranE)
  from lineFeed_scrolls_region [of u] g obtain b'
    where "lineFeed u = Inr (u\<lparr>buffer := b', cursor := Pos 0 (posy (cursor u))\<rparr>)"
      and "b' = tl (buffer u) @ [clearedRow (cols u) (currentAttr u) (last (buffer u))]"
    by auto
  then have "case lineFeed u of
           Inl e \<Rightarrow> False
         | Inr t' \<Rightarrow>
             buffer t' = tl (buffer u) @ [clearedRow (cols u) (currentAttr u) (last (buffer u))]"
    by simp
  with g have c: "case fullScenario of
      Inl e \<Rightarrow> False
    | Inr (t, fx) \<Rightarrow>
        cursor t = Pos 2 2 \<and> rows t = 3 \<and> scrollRegion t = \<lparr>topRow = 0, bottomRow = 2\<rparr> \<and>
        (case lineFeed t of
           Inl e \<Rightarrow> False
         | Inr t' \<Rightarrow>
             buffer t' = tl (buffer t) @ [clearedRow (cols t) (currentAttr t) (last (buffer t))])"
    by (simp only: ru sum.case prod.case simp_thms)
  from a b c show ?thesis by blast
qed

text \<open>
  C4 as stated fails. With the scroll region on the rows 1 to 2 of a terminal of 3 rows
  that shows \<open>ab\<close>, \<open>cd\<close>, \<open>ef\<close>, a line feed in the last row leaves \<open>ab\<close> in row 0 and
  scrolls the region only, where a scroll of the full buffer gives \<open>cd\<close>, \<open>ef\<close> and a
  blank row.
\<close>

theorem lineFeed_full_scroll_counterexample:
  "(case regionScenario of
      Inl e \<Rightarrow> False
    | Inr (t, fx) \<Rightarrow>
        posy (cursor t) = int (rows t) - 1 \<and>
        scrollRegion t = \<lparr>topRow = 1, bottomRow = 2\<rparr> \<and>
        map (map char) (buffer t) = [str ''ab'', str ''cd'', str ''ef''] \<and>
        (case lineFeed t of
           Inl e \<Rightarrow> False
         | Inr t' \<Rightarrow>
             map (map char) (buffer t') = [str ''ab'', str ''ef'', str ''  ''] \<and>
             map (map char) (buffer t') \<noteq> [str ''cd'', str ''ef'', str ''  ''] \<and>
             cursor t' = Pos 0 2))"
  by code_simp

section \<open>reverseIndex\<close>

text \<open>
  C9, as amended. Below the top of the scroll region \<open>reverseIndex\<close> moves the cursor up
  one row and leaves the buffer alone. In the top row of the region and in every row above
  it, it leaves the cursor alone and scrolls the region down: every row of the region
  below its top takes the content of the row above, the top row is blanked, and the rows
  outside the region stay.
\<close>

theorem reverseIndex_scrolls_at_or_above_top:
  "(topRow (scrollRegion t) < posy (cursor t) \<longrightarrow>
      reverseIndex t = Inr (t\<lparr>cursor := Pos (posx (cursor t)) (posy (cursor t) - 1)\<rparr>)) \<and>
   (posy (cursor t) \<le> topRow (scrollRegion t) \<longrightarrow>
    0 \<le> topRow (scrollRegion t) \<longrightarrow> topRow (scrollRegion t) < int (length (buffer t)) \<longrightarrow>
    bottomRow (scrollRegion t) < int (length (buffer t)) \<longrightarrow>
      (\<exists>b. reverseIndex t = Inr (t\<lparr>buffer := b\<rparr>) \<and> length b = length (buffer t) \<and>
           (\<forall>k<length b. b ! k =
              (if topRow (scrollRegion t) < int k \<and> int k \<le> bottomRow (scrollRegion t)
               then buffer t ! (k - 1)
               else if int k = topRow (scrollRegion t)
               then clearedRow (cols t) (currentAttr t) (buffer t ! k) else buffer t ! k))))"
proof (intro conjI impI)
  assume "topRow (scrollRegion t) < posy (cursor t)"
  then show "reverseIndex t = Inr (t\<lparr>cursor := Pos (posx (cursor t)) (posy (cursor t) - 1)\<rparr>)"
    by (simp add: reverseIndex_def)
next
  assume y: "posy (cursor t) \<le> topRow (scrollRegion t)"
    and r: "0 \<le> topRow (scrollRegion t)" "topRow (scrollRegion t) < int (length (buffer t))"
      "bottomRow (scrollRegion t) < int (length (buffer t))"
  from y have "reverseIndex t = scrollDown 1 t" by (simp add: reverseIndex_def)
  with scrollDown_once [OF r]
  show "\<exists>b. reverseIndex t = Inr (t\<lparr>buffer := b\<rparr>) \<and> length b = length (buffer t) \<and>
           (\<forall>k<length b. b ! k =
              (if topRow (scrollRegion t) < int k \<and> int k \<le> bottomRow (scrollRegion t)
               then buffer t ! (k - 1)
               else if int k = topRow (scrollRegion t)
               then clearedRow (cols t) (currentAttr t) (buffer t ! k) else buffer t ! k))"
    by simp
qed

text \<open>The theorem below the top of the region, and above it.\<close>

theorem reverseIndex_scrolls_at_or_above_top_witness:
  "(case regionScenario of
      Inl e \<Rightarrow> False
    | Inr (t, fx) \<Rightarrow>
        cursor t = Pos 2 2 \<and> scrollRegion t = \<lparr>topRow = 1, bottomRow = 2\<rparr> \<and>
        (case reverseIndex t of
           Inl e \<Rightarrow> False
         | Inr t' \<Rightarrow> cursor t' = Pos 2 1 \<and> buffer t' = buffer t)) \<and>
   (case aboveRegionScenario of
      Inl e \<Rightarrow> False
    | Inr (t, fx) \<Rightarrow>
        cursor t = Pos 2 0 \<and> scrollRegion t = \<lparr>topRow = 1, bottomRow = 2\<rparr> \<and>
        (case reverseIndex t of
           Inl e \<Rightarrow> False
         | Inr t' \<Rightarrow>
             cursor t' = Pos 2 0 \<and> buffer t' ! 0 = buffer t ! 0 \<and>
             buffer t' ! 1 = clearedRow (cols t) (currentAttr t) (buffer t ! 1) \<and>
             buffer t' ! 2 = buffer t ! 1))"
proof -
  have "case regionScenario of
      Inl e \<Rightarrow> False
    | Inr (t, fx) \<Rightarrow> cursor t = Pos 2 2 \<and> scrollRegion t = \<lparr>topRow = 1, bottomRow = 2\<rparr>"
    by code_simp
  then obtain t fx where r: "regionScenario = Inr (t, fx)"
    and f: "cursor t = Pos 2 2 \<and> scrollRegion t = \<lparr>topRow = 1, bottomRow = 2\<rparr>"
    by (rule ranE)
  from reverseIndex_scrolls_at_or_above_top [of t] f
  have "reverseIndex t = Inr (t\<lparr>cursor := Pos (posx (cursor t)) (posy (cursor t) - 1)\<rparr>)"
    by simp
  with f have "case reverseIndex t of
           Inl e \<Rightarrow> False
         | Inr t' \<Rightarrow> cursor t' = Pos 2 1 \<and> buffer t' = buffer t"
    by simp
  with f have a: "case regionScenario of
      Inl e \<Rightarrow> False
    | Inr (t, fx) \<Rightarrow>
        cursor t = Pos 2 2 \<and> scrollRegion t = \<lparr>topRow = 1, bottomRow = 2\<rparr> \<and>
        (case reverseIndex t of
           Inl e \<Rightarrow> False
         | Inr t' \<Rightarrow> cursor t' = Pos 2 1 \<and> buffer t' = buffer t)"
    by (simp only: r sum.case prod.case simp_thms)
  have "case aboveRegionScenario of
      Inl e \<Rightarrow> False
    | Inr (t, fx) \<Rightarrow>
        cursor t = Pos 2 0 \<and> scrollRegion t = \<lparr>topRow = 1, bottomRow = 2\<rparr> \<and>
        length (buffer t) = 3"
    by code_simp
  then obtain u gx where ru: "aboveRegionScenario = Inr (u, gx)"
    and g: "cursor u = Pos 2 0 \<and> scrollRegion u = \<lparr>topRow = 1, bottomRow = 2\<rparr> \<and>
        length (buffer u) = 3"
    by (rule ranE)
  from reverseIndex_scrolls_at_or_above_top [of u] g obtain b
    where ri: "reverseIndex u = Inr (u\<lparr>buffer := b\<rparr>)" and l: "length b = 3"
      and n: "\<forall>k<length b. b ! k =
              (if topRow (scrollRegion u) < int k \<and> int k \<le> bottomRow (scrollRegion u)
               then buffer u ! (k - 1)
               else if int k = topRow (scrollRegion u)
               then clearedRow (cols u) (currentAttr u) (buffer u ! k) else buffer u ! k)"
    by auto
  from n l g have "b ! 0 = buffer u ! 0"
    "b ! 1 = clearedRow (cols u) (currentAttr u) (buffer u ! 1)" "b ! 2 = buffer u ! 1"
    by (simp_all add: numeral_2_eq_2)
  with ri g have "case reverseIndex u of
           Inl e \<Rightarrow> False
         | Inr t' \<Rightarrow>
             cursor t' = Pos 2 0 \<and> buffer t' ! 0 = buffer u ! 0 \<and>
             buffer t' ! 1 = clearedRow (cols u) (currentAttr u) (buffer u ! 1) \<and>
             buffer t' ! 2 = buffer u ! 1"
    by simp
  with g have b: "case aboveRegionScenario of
      Inl e \<Rightarrow> False
    | Inr (t, fx) \<Rightarrow>
        cursor t = Pos 2 0 \<and> scrollRegion t = \<lparr>topRow = 1, bottomRow = 2\<rparr> \<and>
        (case reverseIndex t of
           Inl e \<Rightarrow> False
         | Inr t' \<Rightarrow>
             cursor t' = Pos 2 0 \<and> buffer t' ! 0 = buffer t ! 0 \<and>
             buffer t' ! 1 = clearedRow (cols t) (currentAttr t) (buffer t ! 1) \<and>
             buffer t' ! 2 = buffer t ! 1)"
    by (simp only: ru sum.case prod.case simp_thms)
  from a b show ?thesis by blast
qed

text \<open>
  C9 as stated fails. With the scroll region on the rows 1 to 2 and the cursor in row 0,
  above the region, \<open>reverseIndex\<close> scrolls the region down (\<open>cd\<close> goes from row 1 to row
  2) and leaves the cursor in row 0.
\<close>

theorem reverseIndex_above_top_counterexample:
  "(case aboveRegionScenario of
      Inl e \<Rightarrow> False
    | Inr (t, fx) \<Rightarrow>
        posy (cursor t) = 0 \<and> topRow (scrollRegion t) = 1 \<and>
        posy (cursor t) \<noteq> topRow (scrollRegion t) \<and>
        map (map char) (buffer t) = [str ''ab'', str ''cd'', str ''  ''] \<and>
        (case reverseIndex t of
           Inl e \<Rightarrow> False
         | Inr t' \<Rightarrow>
             map (map char) (buffer t') = [str ''ab'', str ''  '', str ''cd''] \<and>
             buffer t' \<noteq> buffer t \<and> cursor t' = cursor t))"
  by code_simp

section \<open>Printing and wrapping\<close>

lemma processChar_printable:
  "state (parseState t) = Normal \<Longrightarrow> 32 \<le> c \<Longrightarrow> processChar c t = printChar c t"
  by (simp add: processChar_def handleNormalChar_def)

lemma printChar_inside:
  assumes "cursor t = Pos (int x) (int y)" and "y < length (buffer t)"
    and "length (buffer t ! y) = cols t" and "x < cols t"
  shows "printChar c t =
         Inr (t\<lparr>buffer := (buffer t)[y := (buffer t ! y)[x := Cell c (Some (currentAttr t))]],
                cursor := Pos (int (Suc x)) (int y)\<rparr>)"
  using assms
  by (simp add: printChar_def onBuffer_def putCell_def getRow_def setAt_def add.commute)

text \<open>A run of printable characters that fits into the rest of the row.\<close>

lemma printRun:
  assumes "state (parseState t) = Normal" and "cursor t = Pos (int x) (int y)"
    and "y < length (buffer t)" and "length (buffer t ! y) = cols t"
    and "x + length cs \<le> cols t" and "\<forall>c\<in>set cs. 32 \<le> c"
  shows "processChars cs t =
         Inr (t\<lparr>buffer := (buffer t)[y := take x (buffer t ! y) @
                                            map (\<lambda>c. Cell c (Some (currentAttr t))) cs @
                                            drop (x + length cs) (buffer t ! y)],
                cursor := Pos (int (x + length cs)) (int y)\<rparr>)"
  using assms
proof (induction cs arbitrary: t x)
  case Nil
  then show ?case by (simp add: processChars_def)
next
  case (Cons c cs)
  let ?row = "buffer t ! y"
  let ?cell = "Cell c (Some (currentAttr t))"
  let ?t1 = "t\<lparr>buffer := (buffer t)[y := ?row[x := ?cell]], cursor := Pos (int (Suc x)) (int y)\<rparr>"
  from Cons.prems have x: "x < cols t" and xl: "x < length ?row" by simp_all
  from Cons.prems have p: "processChar c t = Inr ?t1"
    by (simp add: processChar_printable printChar_inside)
  have "processChars cs ?t1 =
         Inr (?t1\<lparr>buffer := (buffer ?t1)[y := take (Suc x) (buffer ?t1 ! y) @
                                            map (\<lambda>c. Cell c (Some (currentAttr ?t1))) cs @
                                            drop (Suc x + length cs) (buffer ?t1 ! y)],
                cursor := Pos (int (Suc x + length cs)) (int y)\<rparr>)"
    using Cons.prems by (intro Cons.IH) simp_all
  moreover have "take (Suc x) (?row[x := ?cell]) = take x ?row @ [?cell]"
    using xl by (simp add: take_Suc_conv_app_nth)
  moreover have "drop (Suc x + length cs) (?row[x := ?cell]) = drop (Suc x + length cs) ?row"
    by simp
  ultimately have "processChars cs ?t1 =
         Inr (t\<lparr>buffer := (buffer t)[y := take x ?row @
                                            map (\<lambda>c. Cell c (Some (currentAttr t))) (c # cs) @
                                            drop (x + length (c # cs)) ?row],
                cursor := Pos (int (x + length (c # cs))) (int y)\<rparr>)"
    using Cons.prems(3) by simp
  with p show ?case by (simp add: processChars_def)
qed

text \<open>A printable character met with the cursor past the last column, above the last row.\<close>

lemma printChar_wrap:
  assumes "cursor t = Pos (int (cols t)) (int y)" and "Suc y < rows t"
    and "Suc y < length (buffer t)" and "length (buffer t ! Suc y) = cols t" and "0 < cols t"
  shows "printChar c t =
         Inr (t\<lparr>buffer := (buffer t)[Suc y := (buffer t ! Suc y)[0 := Cell c (Some (currentAttr t))]],
                cursor := Pos 1 (int (Suc y))\<rparr>)"
proof -
  let ?t0 = "t\<lparr>cursor := Pos 0 (int y)\<rparr>"
  from assms have "lineFeed ?t0 = Inr (t\<lparr>cursor := Pos 0 (int (Suc y))\<rparr>)"
    by (simp add: lineFeed_def add.commute)
  moreover have "printChar c (t\<lparr>cursor := Pos 0 (int (Suc y))\<rparr>) =
      Inr (t\<lparr>buffer := (buffer t)[Suc y := (buffer t ! Suc y)[0 := Cell c (Some (currentAttr t))]],
             cursor := Pos 1 (int (Suc y))\<rparr>)"
    using printChar_inside [of "t\<lparr>cursor := Pos 0 (int (Suc y))\<rparr>" 0 "Suc y" c] assms by simp
  ultimately show ?thesis
    using assms(1,5)
    by (simp add: printChar_def onBuffer_def putCell_def getRow_def setAt_def add.commute)
qed

lemma writeChunk_returns:
  assumes "processChars d t = Inr t1"
  shows "\<exists>t' fx'. writeChunk d t fx = Inr (t', fx') \<and> buffer t' = buffer t1 \<and> cursor t' = cursor t1"
proof (cases "toString t = toString t1")
  case True
  with assms show ?thesis by (simp add: writeChunk_def)
next
  case False
  let ?t2 = "t1\<lparr>frameCounter := frameCounter t1 + 1, hasChangedSinceLastCheck := True\<rparr>"
  let ?cd = "\<lparr>frameNumber = frameCounter ?t2, screenBefore = toString t,
              screenAfter = toString t1, cursorPosition = getCursorPosition ?t2, inputData = d\<rparr>"
  obtain fx' where "notifyChangeListeners ?t2 ?cd fx = Inr fx'"
    using notifyChangeListeners_total [of ?t2 ?cd fx] by blast
  with assms False show ?thesis by (simp add: writeChunk_def Let_def)
qed

text \<open>
  C7, as amended. On a new terminal with at least two rows, a \<open>write\<close> of \<open>cols + k\<close>
  characters with codes from 32 on, \<open>0 < k \<le> cols\<close>, returns; row 0 then holds the first
  \<open>cols\<close> characters, the first \<open>k\<close> cells of row 1 hold the other \<open>k\<close>, the rest of row 1
  is blank, and the cursor is at \<open>(k, 1)\<close>.
\<close>

theorem wrap_fills_two_rows:
  assumes "0 < k" and "k \<le> c" and "2 \<le> r" and "length cs = c + k" and "\<forall>x\<in>set cs. 32 \<le> x"
  shows "\<exists>t' fx'. writeChunk cs (new c r) fx = Inr (t', fx') \<and>
           map char (buffer t' ! 0) = take c cs \<and>
           take k (map char (buffer t' ! 1)) = drop c cs \<and>
           drop k (map char (buffer t' ! 1)) = replicate (c - k) 32 \<and>
           cursor t' = Pos (int k) 1"
proof -
  let ?t0 = "new c r"
  let ?cell = "\<lambda>x. Cell x (Some defaultAttr)"
  let ?blank = "replicate c (Cell 32 None)"
  have new: "state (parseState ?t0) = Normal" "cursor ?t0 = Pos 0 0" "cols ?t0 = c" "rows ?t0 = r"
    "buffer ?t0 = replicate r ?blank" "currentAttr ?t0 = defaultAttr"
    by (simp_all add: new_def emptyBuffer_def)
  from assms have "length (drop c cs) = k" by simp
  with assms(1) obtain d ds where dd: "drop c cs = d # ds" and ds: "length ds = k - 1"
    by (cases "drop c cs") auto
  from assms(4) have l1: "length (take c cs) = c" by simp
  let ?cs1 = "take c cs"
  have cs: "?cs1 @ d # ds = cs"
    using append_take_drop_id [of c cs] by (simp only: dd)
  have "set (d # ds) \<subseteq> set cs"
    using set_drop_subset [of c cs] by (simp only: dd)
  with assms(5) have pr: "\<forall>x\<in>set ?cs1. 32 \<le> x" "32 \<le> d" "\<forall>x\<in>set ds. 32 \<le> x"
    by (auto dest: in_set_takeD)
  let ?t1 = "?t0\<lparr>buffer := (replicate r ?blank)[0 := map ?cell ?cs1], cursor := Pos (int c) 0\<rparr>"
  have s1: "processChars ?cs1 ?t0 = Inr ?t1"
    using printRun [of ?t0 0 0 ?cs1] new pr(1) l1 assms(3) by simp
  let ?t2 = "?t1\<lparr>buffer := (buffer ?t1)[1 := ?blank[0 := ?cell d]], cursor := Pos 1 1\<rparr>"
  have s2: "processChar d ?t1 = Inr ?t2"
    using printChar_wrap [of ?t1 0 d] new pr(2) assms(1,2,3)
    by (simp add: processChar_printable new_def)
  let ?row1 = "?cell d # map ?cell ds @ replicate (c - k) (Cell 32 None)"
  let ?t3 = "?t2\<lparr>buffer := (buffer ?t2)[1 := ?row1], cursor := Pos (int k) 1\<rparr>"
  have "processChars ds ?t2 =
         Inr (?t2\<lparr>buffer := (buffer ?t2)[1 := take 1 (buffer ?t2 ! 1) @
                                            map (\<lambda>c. Cell c (Some (currentAttr ?t2))) ds @
                                            drop (1 + length ds) (buffer ?t2 ! 1)],
                cursor := Pos (int (1 + length ds)) (int 1)\<rparr>)"
    using assms(1,2,3) ds pr(3) by (intro printRun) (simp_all add: new_def)
  moreover have "take 1 (?blank[0 := ?cell d]) = [?cell d]"
    using assms(1,2) by (cases c) simp_all
  moreover have "drop (1 + length ds) (?blank[0 := ?cell d]) = replicate (c - k) (Cell 32 None)"
    using assms(1,2) ds by (cases c; cases k) simp_all
  ultimately have s3: "processChars ds ?t2 = Inr ?t3"
    using assms(1,2,3) ds by (simp add: new_def)
  have "processChars cs ?t0 = thenE (processChars ?cs1 ?t0) (processChars (d # ds))"
    using foldE_append [of processChar ?cs1 "d # ds" ?t0]
    unfolding processChars_def by (simp only: cs)
  with s1 s2 s3 have "processChars cs ?t0 = Inr ?t3"
    by (simp add: processChars_def)
  from writeChunk_returns [OF this, of fx] obtain t' fx'
    where w: "writeChunk cs ?t0 fx = Inr (t', fx')"
      and b: "buffer t' = buffer ?t3" and cu: "cursor t' = cursor ?t3"
    by blast
  from b assms(3) have r0: "map char (buffer t' ! 0) = ?cs1"
    and r1: "map char (buffer t' ! 1) = (d # ds) @ replicate (c - k) 32"
    by (simp_all add: comp_def)
  from ds assms(1) have "length (d # ds) = k" by simp
  then have "take k ((d # ds) @ replicate (c - k) 32) = d # ds"
    and "drop k ((d # ds) @ replicate (c - k) 32) = replicate (c - k) 32"
    by (metis append_eq_conv_conj)+
  with r0 r1 have "map char (buffer t' ! 0) = take c cs \<and>
           take k (map char (buffer t' ! 1)) = drop c cs \<and>
           drop k (map char (buffer t' ! 1)) = replicate (c - k) 32"
    by (simp only: dd simp_thms)
  with w cu show ?thesis by simp
qed

text \<open>The theorem at the scenario of the tests, \<open>HelloWorld\<close> in 5 columns and 3 rows.\<close>

theorem wrap_fills_two_rows_witness:
  "list_all (\<lambda>x. 32 \<le> x) (str ''HelloWorld'') \<and>
   (case writeChunk (str ''HelloWorld'') (new 5 3) noEffects of
      Inl e \<Rightarrow> False
    | Inr (t', fx') \<Rightarrow>
        map char (buffer t' ! 0) = str ''Hello'' \<and>
        take 5 (map char (buffer t' ! 1)) = str ''World'' \<and>
        cursor t' = Pos 5 1)"
proof -
  have p: "\<forall>x\<in>set (str ''HelloWorld''). 32 \<le> x"
    by (simp add: str_def ord_def)
  have l: "length (str ''HelloWorld'') = 5 + 5"
    by (simp add: str_def)
  from wrap_fills_two_rows [of 5 5 3 "str ''HelloWorld''" noEffects, OF _ _ _ l p]
  obtain t' fx' where w: "writeChunk (str ''HelloWorld'') (new 5 3) noEffects = Inr (t', fx')"
    and r: "map char (buffer t' ! 0) = take 5 (str ''HelloWorld'')"
      "take 5 (map char (buffer t' ! 1)) = drop 5 (str ''HelloWorld'')"
      "cursor t' = Pos (int 5) 1"
    by auto
  have "take 5 (str ''HelloWorld'') = str ''Hello''" "drop 5 (str ''HelloWorld'') = str ''World''"
    by (simp_all add: str_def)
  with r w p show ?thesis
    by (simp add: list_all_iff)
qed

text \<open>
  C7 as stated fails on a terminal with one row: there the wrap scrolls the only row away.
  After \<open>HelloW\<close> in 5 columns and 1 row, row 0 holds \<open>W\<close> and four blanks, and there is
  no row 1.
\<close>

theorem wrap_one_row_counterexample:
  "(case writeChunk (str ''HelloW'') (new 5 1) noEffects of
      Inl e \<Rightarrow> False
    | Inr (t, fx) \<Rightarrow>
        rows t = 1 \<and> map (map char) (buffer t) = [str ''W    ''] \<and>
        map char (buffer t ! 0) \<noteq> str ''Hello'')"
  by code_simp

section \<open>The operations return\<close>



lemma grid_length: "grid n m b \<Longrightarrow> length b = n"
  by (simp add: grid_def)














lemma gridOK_cursor [simp]: "gridOK (t\<lparr>cursor := p\<rparr>) = gridOK t"
  by (simp add: gridOK_def split: option.splits)

lemma gridOK_parseState [simp]: "gridOK (t\<lparr>parseState := p\<rparr>) = gridOK t"
  by (simp add: gridOK_def split: option.splits)

lemma gridOK_setState [simp]: "gridOK (setState s t) = gridOK t"
  by (simp add: setState_def)



































section \<open>The cursor invariant\<close>




end
